theory Spec2Isabelle
  imports Complex_Main "HOL-Library.Word"
begin

section \<open>Data model of the Bluetooth Low Energy integration\<close>

text \<open>
  The service \<^verbatim>\<open>BluetoothLowEnergyService\<close> of
  \<^verbatim>\<open>bluetooth-low-energy.service.ts\<close> is embedded function by function. A
  JavaScript \<^verbatim>\<open>number\<close> is a \<^typ>\<open>real\<close>, a \<^verbatim>\<open>Buffer\<close> a list of bytes, a
  value that may be \<^verbatim>\<open>undefined\<close> or \<^verbatim>\<open>null\<close> an \<^typ>\<open>'a option\<close>,
  a \<^verbatim>\<open>Map\<close> a partial function and a \<^verbatim>\<open>Set\<close> a set. Mutation of the service's
  fields is explicit state passing; an exception is the left summand of a sum.
\<close>

type_synonym Buffer = "8 word list"

text \<open>
  The Noble peripheral as far as the service reads it: \<^verbatim>\<open>peripheral.id\<close>,
  \<^verbatim>\<open>peripheral.connectable\<close>, \<^verbatim>\<open>peripheral.rssi\<close> and
  \<^verbatim>\<open>peripheral.advertisement.manufacturerData\<close> (absent when the advertisement
  carries no manufacturer data).
\<close>

record Peripheral =
  peripheral_id :: string
  peripheral_name :: string
  connectable :: bool
  peripheral_rssi :: real
  manufacturerData :: "Buffer option"

text \<open>
  The fields that only an \<^verbatim>\<open>IBeacon\<close> has: the three bit masks handed to its
  constructor (the battery mask can be overridden per tag).
\<close>

record Beacon =
  majorMask :: nat
  minorMask :: nat
  batteryMask :: nat

text \<open>
  A \<^verbatim>\<open>Tag\<close>. The field \<open>beacon\<close> is \<open>Some\<close> exactly for the instances of the
  subclass \<^verbatim>\<open>IBeacon\<close>, so \<^verbatim>\<open>tag instanceof IBeacon\<close> is \<open>beacon tag \<noteq> None\<close>.
\<close>

record Tag =
  tag_id :: string
  tag_name :: string
  rssi :: real
  measuredPower :: real
  isApp :: bool
  peripheral :: Peripheral
  beacon :: "Beacon option"

definition isInstanceOfIBeacon :: "Tag \<Rightarrow> bool" where
  "isInstanceOfIBeacon tag = (beacon tag \<noteq> None)"

record TagOverride =
  override_name :: "string option"
  override_measuredPower :: "real option"
  override_batteryMask :: "nat option"

text \<open>
  \<^verbatim>\<open>BluetoothLowEnergyConfig\<close>, by the fields the service reads. The four lists may
  be undefined (the service guards every read with \<^verbatim>\<open>?.\<close> or \<^verbatim>\<open>|| []\<close>), and so
  may \<open>maxDistance\<close>. \<open>updateFrequency\<close> and \<open>timeout\<close> are in seconds.
\<close>

record Config =
  allowlist :: "string list option"
  whitelist :: "string list option"
  denylist :: "string list option"
  blacklist :: "string list option"
  allowlistRegex :: bool
  whitelistRegex :: bool
  denylistRegex :: bool
  blacklistRegex :: bool
  processIBeacon :: bool
  onlyIBeacon :: bool
  maxDistance :: "real option"
  updateFrequency :: real
  timeout :: real
  cfg_majorMask :: nat
  cfg_minorMask :: nat
  cfg_batteryMask :: nat
  tagOverrides :: "string \<rightharpoonup> TagOverride"

text \<open>
  What the service takes from collaborators whose code is outside the two source files:
  the getters \<^verbatim>\<open>Tag.distance\<close> and \<^verbatim>\<open>IBeacon.batteryLevel\<close>, the measured power
  a new tag is calibrated with, the Kalman filter of the mixin \<^verbatim>\<open>KalmanFilterable\<close>
  (here a function of all the readings of one id, the newest last), \<^verbatim>\<open>makeId\<close>, the
  instance name of the global settings, and
  \<^verbatim>\<open>String.prototype.match\<close> on a configured pattern (\<open>None\<close> when the pattern is
  not a regular expression and the call throws a \<^verbatim>\<open>SyntaxError\<close>).
\<close>

record Deps =
  calibration :: "Peripheral \<Rightarrow> real"
  distance :: "Tag \<Rightarrow> real"
  batteryLevel :: "Tag \<Rightarrow> real option"
  kalmanFilter :: "real list \<Rightarrow> real"
  makeId :: "string \<Rightarrow> string"
  instanceName :: string
  regexMatch :: "string \<Rightarrow> string \<Rightarrow> bool option"

text \<open>
  The exceptions of the embedded code: a configured pattern that is not a regular
  expression, and a call of a value that is not a function.
\<close>

datatype error = SyntaxError | TypeError

section \<open>Advertisement classifier\<close>

definition readUInt8 :: "Buffer \<Rightarrow> nat \<Rightarrow> nat" where
  "readUInt8 b off = unat (b ! off)"

definition readUInt16LE :: "Buffer \<Rightarrow> nat \<Rightarrow> nat" where
  "readUInt16LE b off = unat (b ! off) + 256 * unat (b ! (off + 1))"

text \<open>
  \<^verbatim>\<open>isIBeacon\<close>: the conjunction is evaluated left to right, so the three reads happen
  only on a buffer of at least 25 bytes and never leave it.
\<close>

definition isIBeacon :: "Buffer option \<Rightarrow> bool" where
  "isIBeacon md =
     (case md of
        None \<Rightarrow> False
      | Some b \<Rightarrow>
          25 \<le> length b \<and> readUInt16LE b 0 = 0x004c \<and> readUInt8 b 2 = 0x02 \<and> readUInt8 b 3 = 0x15)"

text \<open>
  Modelled from the spec: the constructors of the classes \<^verbatim>\<open>Tag\<close> and \<^verbatim>\<open>IBeacon\<close>
  (\<^verbatim>\<open>./tag\<close> and \<^verbatim>\<open>./i-beacon\<close> are not among the sources). A tag starts with the
  transport identity, name and signal strength of its peripheral and is not application
  resolved; the measured power is a calibration constant. A beacon is a tag that also holds
  its masks.
\<close>

definition newTag :: "Deps \<Rightarrow> Peripheral \<Rightarrow> Tag" where
  "newTag d p =
     \<lparr>tag_id = peripheral_id p, tag_name = peripheral_name p, rssi = peripheral_rssi p,
      measuredPower = calibration d p, isApp = False, peripheral = p, beacon = None\<rparr>"

definition newIBeacon :: "Deps \<Rightarrow> Peripheral \<Rightarrow> nat \<Rightarrow> nat \<Rightarrow> nat \<Rightarrow> Tag" where
  "newIBeacon d p major minor battery =
     (newTag d p)\<lparr>beacon := Some \<lparr>majorMask = major, minorMask = minor, batteryMask = battery\<rparr>\<rparr>"

definition createTag :: "Deps \<Rightarrow> Config \<Rightarrow> Peripheral \<Rightarrow> Tag" where
  "createTag d cfg p =
     (if processIBeacon cfg \<and> isIBeacon (manufacturerData p)
      then newIBeacon d p (cfg_majorMask cfg) (cfg_minorMask cfg) (cfg_batteryMask cfg)
      else newTag d p)"

text \<open>The layout the classifier looks for, as the claim words it.\<close>

definition beaconLayout :: "Buffer option \<Rightarrow> bool" where
  "beaconLayout md =
     (\<exists>b. md = Some b \<and> 25 \<le> length b \<and> b ! 0 = 0x4c \<and> b ! 1 = 0x00 \<and> b ! 2 = 0x02 \<and> b ! 3 = 0x15)"

section \<open>Allow/deny filter\<close>

definition toLowerChar :: "char \<Rightarrow> char" where
  "toLowerChar c =
     (let n = (of_char c :: nat) in if 65 \<le> n \<and> n \<le> 90 then char_of (n + 32) else c)"

text \<open>
  \<^verbatim>\<open>String.prototype.toLowerCase\<close>, which folds every cased character, narrowed to
  the letters A to Z of ASCII: every other character is left as it is. The identities and
  the configured entries are hexadecimal addresses and UUIDs.
\<close>

definition toLowerCase :: "string \<Rightarrow> string" where
  "toLowerCase s = map toLowerChar s"

definition orEmpty :: "string list option \<Rightarrow> string list" where
  "orEmpty l = (case l of None \<Rightarrow> [] | Some xs \<Rightarrow> xs)"

definition lengthPositive :: "string list option \<Rightarrow> bool" where
  "lengthPositive l = (case l of None \<Rightarrow> False | Some xs \<Rightarrow> 0 < length xs)"

definition isAllowlistEnabled :: "Config \<Rightarrow> bool" where
  "isAllowlistEnabled cfg = (lengthPositive (allowlist cfg) \<or> lengthPositive (whitelist cfg))"

definition isDenylistEnabled :: "Config \<Rightarrow> bool" where
  "isDenylistEnabled cfg = (lengthPositive (denylist cfg) \<or> lengthPositive (blacklist cfg))"

text \<open>
  \<^verbatim>\<open>list.some((regex) => id.match(regex))\<close>: the patterns are tried in order, the first
  match ends the search, and a pattern that does not compile throws when it is reached.
\<close>

fun someMatch :: "Deps \<Rightarrow> string \<Rightarrow> string list \<Rightarrow> error + bool" where
  "someMatch d ident [] = Inr False"
| "someMatch d ident (r # rs) =
     (case regexMatch d ident r of
        None \<Rightarrow> Inl SyntaxError
      | Some True \<Rightarrow> Inr True
      | Some False \<Rightarrow> someMatch d ident rs)"

definition isOnAllowlist :: "Deps \<Rightarrow> Config \<Rightarrow> string \<Rightarrow> error + bool" where
  "isOnAllowlist d cfg ident =
     (let list = orEmpty (allowlist cfg) @ orEmpty (whitelist cfg) in
      if length list = 0 then Inr False
      else if allowlistRegex cfg \<or> whitelistRegex cfg then someMatch d ident list
      else Inr (toLowerCase ident \<in> set (map toLowerCase list)))"

definition isOnDenylist :: "Deps \<Rightarrow> Config \<Rightarrow> string \<Rightarrow> error + bool" where
  "isOnDenylist d cfg ident =
     (let list = orEmpty (denylist cfg) @ orEmpty (blacklist cfg) in
      if length list = 0 then Inr False
      else if denylistRegex cfg \<or> blacklistRegex cfg then someMatch d ident list
      else Inr (toLowerCase ident \<in> set (map toLowerCase list)))"

text \<open>
  The condition of \<^verbatim>\<open>handleDiscovery\<close> under which a tag is processed further, with
  the short-circuit evaluation of \<^verbatim>\<open>||\<close> and \<^verbatim>\<open>&&\<close>: the denylist is consulted
  only when the left operand holds.
\<close>

definition passesFilter :: "Deps \<Rightarrow> Config \<Rightarrow> string \<Rightarrow> error + bool" where
  "passesFilter d cfg ident =
     (case isOnAllowlist d cfg ident of
        Inl e \<Rightarrow> Inl e
      | Inr onAllow \<Rightarrow>
          if onAllow \<or> (\<not> isAllowlistEnabled cfg \<and> isDenylistEnabled cfg)
          then (case isOnDenylist d cfg ident of Inl e \<Rightarrow> Inl e | Inr onDeny \<Rightarrow> Inr (\<not> onDeny))
          else Inr False)"






section \<open>Service state\<close>

text \<open>
  \<^verbatim>\<open>NewDistanceEvent\<close>, with the ten constructor arguments in the order
  \<^verbatim>\<open>handleDiscovery\<close> passes them.
\<close>

record NewDistanceEvent =
  ev_instanceName :: string
  tagId :: string
  tagName :: string
  peripheralId :: string
  ev_isApp :: bool
  ev_rssi :: real
  ev_measuredPower :: real
  ev_distance :: real
  outOfRange :: bool
  ev_batteryLevel :: "real option"

text \<open>
  What a throttled function of the service can be called with: \<^verbatim>\<open>handleDiscovery\<close>
  calls it with an event; when it has come to stand in for the method
  \<^verbatim>\<open>hasOwnProperty\<close> of the registry, it is called with an id.
\<close>

datatype Argument = EventArgument NewDistanceEvent | IdArgument string

text \<open>
  The closure state of one function made by \<^verbatim>\<open>_.throttle(func, wait)\<close>. lodash is an
  external library; \<^verbatim>\<open>throttle(func, wait)\<close> is
  \<^verbatim>\<open>debounce(func, wait, {leading: true, maxWait: wait, trailing: true})\<close>, and the
  record holds the variables of that closure. \<open>timerId\<close> is the time at which the pending
  \<^verbatim>\<open>setTimeout\<close> is due, \<open>None\<close> when no timer is pending. Times are milliseconds.
\<close>

record Throttled =
  lastArgs :: "Argument option"
  lastCallTime :: "real option"
  lastInvokeTime :: real
  timerId :: "real option"
  wait :: real

text \<open>
  The entities the service registers: a device tracker and a battery sensor (id and
  name), and the room presence sensor (id, name, timeout) behind the proxy that holds its
  tracker and, when there is one, its battery sensor.
\<close>

datatype Entity =
    DeviceTracker string string
  | Sensor string string
  | BluetoothLowEnergyPresenceSensor string string real string "string option"

fun entityId :: "Entity \<Rightarrow> string" where
  "entityId (DeviceTracker i n) = i"
| "entityId (Sensor i n) = i"
| "entityId (BluetoothLowEnergyPresenceSensor i n t tr b) = i"

text \<open>
  The calls the service makes on its collaborators, in the order it makes them:
  \<^verbatim>\<open>entitiesService.add\<close>, \<^verbatim>\<open>schedulerRegistry.addInterval\<close> (name and period),
  \<^verbatim>\<open>sensor.handleNewMeasurement\<close> (the sensor's id and the event whose six values are
  passed) and \<^verbatim>\<open>clusterService.publish\<close>. The last two constructors are the same two
  calls made with a string in the place of the event: the six values read from it are
  undefined, and the string itself is published.
\<close>

datatype Effect =
    Registered Entity
  | IntervalAdded string real
  | Measured string NewDistanceEvent
  | Published NewDistanceEvent
  | MeasuredUndefined string
  | PublishedId string

text \<open>
  The mutable fields of the service and of the collaborators it writes to.
  \<^verbatim>\<open>companionAppTags\<close> is a \<^verbatim>\<open>Map<string, string>\<close> whose values may be
  \<^verbatim>\<open>null\<close>: \<open>None\<close> is a missing key, \<open>Some None\<close> a key mapped to \<^verbatim>\<open>null\<close>
  (resolution pending) and \<open>Some (Some a)\<close> a resolved application identity.
  \<open>denylistTimers\<close> are the pending \<^verbatim>\<open>setTimeout\<close> callbacks that delete an identity
  from the companion denylist, each with the time it is due. \<open>readings\<close> is the state of
  the Kalman filters: the readings fed so far for each id.

  \<^verbatim>\<open>tagUpdaters\<close> is a plain object used as a registry. \<open>tagUpdaters\<close> are its own
  properties. An assignment to the name \<^verbatim>\<open>__proto__\<close> creates no own property but
  makes the assigned function the prototype of the object, \<open>tagUpdatersPrototype\<close>.
  \<open>orphanedUpdaters\<close> are the throttled functions that an assignment has replaced: the
  registry no longer reaches them, but a timer of theirs that is pending still fires.
\<close>

record State =
  seenIds :: "string set"
  companionAppTags :: "string \<rightharpoonup> string option"
  companionAppDenylist :: "string set"
  tagUpdaters :: "string \<rightharpoonup> Throttled"
  tagUpdatersPrototype :: "Throttled option"
  orphanedUpdaters :: "Throttled list"
  readings :: "string \<Rightarrow> real list"
  entities :: "Entity list"
  effects :: "Effect list"
  denylistTimers :: "(real \<times> string) list"

definition initialState :: State where
  "initialState =
     \<lparr>seenIds = {}, companionAppTags = Map.empty, companionAppDenylist = {},
      tagUpdaters = Map.empty, tagUpdatersPrototype = None, orphanedUpdaters = [],
      readings = (\<lambda>i. []), entities = [], effects = [], denylistTimers = []\<rparr>"

section \<open>Companion cache update\<close>

text \<open>\<^verbatim>\<open>x != null\<close> on the result of \<^verbatim>\<open>Map.get\<close>: false for a missing key and for null.\<close>

definition notNull :: "string option option \<Rightarrow> bool" where
  "notNull v = (case v of Some (Some a) \<Rightarrow> True | _ \<Rightarrow> False)"

definition handleAppDiscovery :: "string \<Rightarrow> string option \<Rightarrow> State \<Rightarrow> State" where
  "handleAppDiscovery tid appId s =
     (let oldId = companionAppTags s tid in
      if \<not> (notNull oldId \<and> appId = None)
      then s\<lparr>companionAppTags := (companionAppTags s)(tid \<mapsto> appId),
             companionAppDenylist := companionAppDenylist s - {tid}\<rparr>
      else s)"

section \<open>Presence sensors\<close>

text \<open>
  Modelled from the spec: \<^verbatim>\<open>EntitiesService\<close> (\<^verbatim>\<open>entities.service\<close> is not among the
  sources), the registration API of the downstream entity sink: a registry of entities
  by id, where \<open>add\<close> registers an entity and returns it.
\<close>

definition has :: "string \<Rightarrow> State \<Rightarrow> bool" where
  "has i s = (i \<in> set (map entityId (entities s)))"

definition add :: "Entity \<Rightarrow> State \<Rightarrow> State" where
  "add e s = s\<lparr>entities := entities s @ [e], effects := effects s @ [Registered e]\<rparr>"

definition createDeviceTracker :: "string \<Rightarrow> string \<Rightarrow> State \<Rightarrow> State" where
  "createDeviceTracker i n s = add (DeviceTracker i n) s"

definition createBatterySensor :: "string \<Rightarrow> string \<Rightarrow> State \<Rightarrow> State" where
  "createBatterySensor i n s = add (Sensor i n) s"

definition createRoomPresenceSensor ::
  "Deps \<Rightarrow> Config \<Rightarrow> string \<Rightarrow> string \<Rightarrow> string \<Rightarrow> bool \<Rightarrow> State \<Rightarrow> State" where
  "createRoomPresenceSensor d cfg sensorId deviceId deviceName hasBattery s =
     (let trackerId = makeId d (sensorId @ ''-tracker'');
          s1 = createDeviceTracker trackerId (deviceName @ '' Tracker'') s;
          batteryId = makeId d (sensorId @ ''-battery'');
          s2 = (if hasBattery then createBatterySensor batteryId (deviceName @ '' Battery'') s1
                else s1);
          sensorName = deviceName @ '' Room Presence'';
          s3 = add (BluetoothLowEnergyPresenceSensor sensorId sensorName (timeout cfg) trackerId
                      (if hasBattery then Some batteryId else None)) s2
      in s3\<lparr>effects := effects s3 @ [IntervalAdded (sensorId @ ''_timeout_check'') (timeout cfg * 1000)]\<rparr>)"

definition handleNewDistance :: "Deps \<Rightarrow> Config \<Rightarrow> NewDistanceEvent \<Rightarrow> State \<Rightarrow> State" where
  "handleNewDistance d cfg event s =
     (let sensorId = makeId d (''ble '' @ tagId event);
          hasBattery = (ev_batteryLevel event \<noteq> None);
          s1 = (if ev_isApp event
                then handleAppDiscovery (peripheralId event) (Some (tagId event)) s else s);
          s2 = (if has sensorId s1 then s1
                else createRoomPresenceSensor d cfg sensorId (tagId event) (tagName event)
                       hasBattery s1)
      in s2\<lparr>effects := effects s2 @ [Measured sensorId event]\<rparr>)"

section \<open>Companion identity resolver\<close>

definition APPLE_ADVERTISEMENT_ID :: Buffer where
  "APPLE_ADVERTISEMENT_ID = [0x4c, 0x00, 0x10]"

text \<open>
  The condition that guards the resolution in \<^verbatim>\<open>applyCompanionAppOverride\<close>:
  \<^verbatim>\<open>slice(0, 3)\<close> is the first three bytes (fewer on a shorter buffer), and an absent
  buffer makes the optional chain undefined, hence false.
\<close>

definition companionGate :: "Tag \<Rightarrow> bool" where
  "companionGate tag =
     (connectable (peripheral tag)
      \<and> (case manufacturerData (peripheral tag) of
            None \<Rightarrow> False
          | Some b \<Rightarrow> take 3 b = APPLE_ADVERTISEMENT_ID \<and> length b > 6))"

text \<open>A settled promise: resolved with a value, or rejected with an error of this message.\<close>

datatype 'a Promise = Resolved 'a | Rejected string

text \<open>What the peripheral answers to the three requests of \<^verbatim>\<open>readCompanionAppId\<close>.\<close>

record Gatt =
  discoverServices :: "nat Promise"
  discoverCharacteristics :: "nat Promise"
  readData :: "string Promise"

definition readCompanionAppId :: "Gatt \<Rightarrow> string option Promise" where
  "readCompanionAppId g =
     (case discoverServices g of
        Rejected m \<Rightarrow> Rejected m
      | Resolved services \<Rightarrow>
          if services > 0
          then (case discoverCharacteristics g of
                  Rejected m \<Rightarrow> Rejected m
                | Resolved characteristics \<Rightarrow>
                    if characteristics > 0
                    then (case readData g of
                            Rejected m \<Rightarrow> Rejected m
                          | Resolved data \<Rightarrow> Resolved (Some data))
                    else Resolved None)
          else Resolved None)"

text \<open>
  Which of the three racing promises settles first in
  \<^verbatim>\<open>promiseWithTimeout(Promise.race([readCompanionAppId, disconnectPromise]), 15 * 1000)\<close>:
  the read, the disconnect listener, or the 15 second timeout.
\<close>

datatype RaceResult = ReadSettled "string option Promise" | PeerDisconnected | TimedOut

text \<open>
  \<^verbatim>\<open>discoverCompanionAppId\<close>. The connection is awaited before the \<^verbatim>\<open>try\<close>, so its
  rejection leaves the function; every rejection of the race, the timeout included, is
  caught and turned into \<^verbatim>\<open>null\<close>.
\<close>

definition discoverCompanionAppId :: "unit Promise \<Rightarrow> RaceResult \<Rightarrow> string option Promise" where
  "discoverCompanionAppId connect race =
     (case connect of
        Rejected m \<Rightarrow> Rejected m
      | Resolved u \<Rightarrow>
          (case race of
             ReadSettled (Resolved appId) \<Rightarrow> Resolved appId
           | ReadSettled (Rejected m) \<Rightarrow> Resolved None
           | PeerDisconnected \<Rightarrow> Resolved None
           | TimedOut \<Rightarrow> Resolved None))"

text \<open>
  \<^verbatim>\<open>applyCompanionAppOverride\<close> runs in two parts, before and after its only
  \<^verbatim>\<open>await\<close>. A task is a suspended \<^verbatim>\<open>handleDiscovery\<close>: either inside
  \<^verbatim>\<open>applyCompanionAppOverride\<close>, waiting for the handshake of its tag, or after it,
  holding the tag that \<^verbatim>\<open>applyCompanionAppOverride\<close> returned.
\<close>

datatype Task = Handshake Tag | Continue Tag

definition startsHandshake :: "Tag \<Rightarrow> State \<Rightarrow> bool" where
  "startsHandshake tag s =
     (companionGate tag
      \<and> tag_id tag \<notin> dom (companionAppTags s)
      \<and> tag_id tag \<notin> companionAppDenylist s)"

text \<open>The last lines of \<^verbatim>\<open>applyCompanionAppOverride\<close>: the cached identity replaces the id.\<close>

definition applyCachedId :: "State \<Rightarrow> Tag \<Rightarrow> Tag" where
  "applyCachedId s tag =
     (case companionAppTags s (tag_id tag) of
        Some (Some appId) \<Rightarrow> tag\<lparr>tag_id := appId, isApp := True\<rparr>
      | _ \<Rightarrow> tag)"

definition applyCompanionAppOverride_enter :: "Tag \<Rightarrow> State \<Rightarrow> State \<times> Task" where
  "applyCompanionAppOverride_enter tag s =
     (if startsHandshake tag s
      then (s\<lparr>companionAppTags := (companionAppTags s)(tag_id tag \<mapsto> None)\<rparr>, Handshake tag)
      else (s, Continue (applyCachedId s tag)))"

text \<open>
  The part after the \<^verbatim>\<open>await\<close>, at time \<open>now\<close>, with the settled result of
  \<^verbatim>\<open>discoverCompanionAppId\<close>: the \<^verbatim>\<open>try\<close> body on a value, the \<^verbatim>\<open>catch\<close> on a
  rejection.
\<close>

definition applyCompanionAppOverride_resume ::
  "real \<Rightarrow> Tag \<Rightarrow> string option Promise \<Rightarrow> State \<Rightarrow> State \<times> Task" where
  "applyCompanionAppOverride_resume now tag settled s =
     (let s' =
        (case settled of
           Resolved appId \<Rightarrow> handleAppDiscovery (tag_id tag) appId s
         | Rejected message \<Rightarrow>
             (let s1 = (if message = ''timed out''
                        then s\<lparr>companionAppDenylist := insert (tag_id tag) (companionAppDenylist s),
                               denylistTimers := denylistTimers s @ [(now + 3 * 60 * 1000, tag_id tag)]\<rparr>
                        else s)
              in s1\<lparr>companionAppTags := (companionAppTags s1)(tag_id tag := None)\<rparr>))
      in (s', Continue (applyCachedId s' tag)))"

text \<open>The callback of the \<^verbatim>\<open>setTimeout\<close>: the \<open>k\<close>-th pending timer fires.\<close>

definition denylistTimerFires :: "nat \<Rightarrow> State \<Rightarrow> State" where
  "denylistTimerFires k s =
     (if k < length (denylistTimers s)
      then s\<lparr>companionAppDenylist := companionAppDenylist s - {snd (denylistTimers s ! k)},
             denylistTimers := take k (denylistTimers s) @ drop (Suc k) (denylistTimers s)\<rparr>
      else s)"

section \<open>Throttled dispatcher\<close>

definition newThrottled :: "real \<Rightarrow> Throttled" where
  "newThrottled w =
     \<lparr>lastArgs = None, lastCallTime = None, lastInvokeTime = 0, timerId = None, wait = w\<rparr>"

text \<open>
  \<^verbatim>\<open>shouldInvoke\<close>: the first call, a call after a quiet \<open>wait\<close>, a clock that went
  backwards, or \<open>maxWait\<close> (which is \<open>wait\<close> for a throttle) since the last invocation.
\<close>

definition shouldInvoke :: "Throttled \<Rightarrow> real \<Rightarrow> bool" where
  "shouldInvoke th time =
     (case lastCallTime th of
        None \<Rightarrow> True
      | Some lc \<Rightarrow> time - lc \<ge> wait th \<or> time - lc < 0 \<or> time - lastInvokeTime th \<ge> wait th)"

text \<open>
  Each of the following returns the new closure state and, when \<^verbatim>\<open>func\<close> is invoked,
  the arguments it is invoked with.
\<close>

definition invokeFunc :: "Throttled \<Rightarrow> real \<Rightarrow> Throttled \<times> Argument option" where
  "invokeFunc th time = (th\<lparr>lastArgs := None, lastInvokeTime := time\<rparr>, lastArgs th)"

definition leadingEdge :: "Throttled \<Rightarrow> real \<Rightarrow> Throttled \<times> Argument option" where
  "leadingEdge th time =
     invokeFunc (th\<lparr>lastInvokeTime := time, timerId := Some (time + wait th)\<rparr>) time"

text \<open>
  \<^verbatim>\<open>remainingWait\<close> is only called from \<^verbatim>\<open>timerExpired\<close> when
  \<^verbatim>\<open>shouldInvoke\<close> is false, hence after a first call; the time of that call is read
  as 0 where there was none.
\<close>

definition remainingWait :: "Throttled \<Rightarrow> real \<Rightarrow> real" where
  "remainingWait th time =
     (let timeSinceLastCall = time - (case lastCallTime th of None \<Rightarrow> 0 | Some lc \<Rightarrow> lc);
          timeSinceLastInvoke = time - lastInvokeTime th;
          timeWaiting = wait th - timeSinceLastCall
      in min timeWaiting (wait th - timeSinceLastInvoke))"

definition trailingEdge :: "Throttled \<Rightarrow> real \<Rightarrow> Throttled \<times> Argument option" where
  "trailingEdge th time =
     (let th1 = th\<lparr>timerId := None\<rparr> in
      if lastArgs th1 \<noteq> None then invokeFunc th1 time
      else (th1\<lparr>lastArgs := None\<rparr>, None))"

definition timerExpired :: "Throttled \<Rightarrow> real \<Rightarrow> Throttled \<times> Argument option" where
  "timerExpired th time =
     (if shouldInvoke th time then trailingEdge th time
      else (th\<lparr>timerId := Some (time + remainingWait th time)\<rparr>, None))"

text \<open>The throttled function itself, called at \<open>time\<close> with an argument.\<close>

definition debounced ::
  "Throttled \<Rightarrow> real \<Rightarrow> Argument \<Rightarrow> Throttled \<times> Argument option" where
  "debounced th time args =
     (let isInvoking = shouldInvoke th time;
          th1 = th\<lparr>lastArgs := Some args, lastCallTime := Some time\<rparr>
      in if isInvoking
         then (if timerId th1 = None then leadingEdge th1 time
               else invokeFunc (th1\<lparr>timerId := Some (time + wait th1)\<rparr>) time)
         else if timerId th1 = None then (th1\<lparr>timerId := Some (time + wait th1)\<rparr>, None)
         else (th1, None))"

text \<open>
  The function that \<^verbatim>\<open>handleDiscovery\<close> throttles: the event goes to the local
  aggregator and then to the cluster bus.
\<close>

definition dispatch :: "Deps \<Rightarrow> Config \<Rightarrow> NewDistanceEvent \<Rightarrow> State \<Rightarrow> State" where
  "dispatch d cfg event s =
     (let s1 = handleNewDistance d cfg event s
      in s1\<lparr>effects := effects s1 @ [Published event]\<rparr>)"

text \<open>
  The same function called with a string, as happens once a throttled function shadows
  \<^verbatim>\<open>hasOwnProperty\<close>. Every field read from the string is undefined: the sensor id is
  made from \<^verbatim>\<open>ble undefined\<close>, no battery is reported, the value is no application, the
  two names interpolate \<^verbatim>\<open>undefined\<close>, and the measurement is made of six undefined
  values. The string is then published.
\<close>

definition handleNewDistanceOfId :: "Deps \<Rightarrow> Config \<Rightarrow> State \<Rightarrow> State" where
  "handleNewDistanceOfId d cfg s =
     (let sensorId = makeId d ''ble undefined'';
          s2 = (if has sensorId s then s
                else createRoomPresenceSensor d cfg sensorId ''undefined'' ''undefined'' False s)
      in s2\<lparr>effects := effects s2 @ [MeasuredUndefined sensorId]\<rparr>)"

fun throttledFunction :: "Deps \<Rightarrow> Config \<Rightarrow> Argument \<Rightarrow> State \<Rightarrow> State" where
  "throttledFunction d cfg (EventArgument event) s = dispatch d cfg event s"
| "throttledFunction d cfg (IdArgument i) s =
     (let s1 = handleNewDistanceOfId d cfg s
      in s1\<lparr>effects := effects s1 @ [PublishedId i]\<rparr>)"

definition invoked :: "Deps \<Rightarrow> Config \<Rightarrow> Argument option \<Rightarrow> State \<Rightarrow> State" where
  "invoked d cfg call s = (case call of None \<Rightarrow> s | Some a \<Rightarrow> throttledFunction d cfg a s)"

text \<open>
  \<^verbatim>\<open>this.tagUpdaters.hasOwnProperty(id)\<close>. While the registry has no own property of
  the name \<^verbatim>\<open>hasOwnProperty\<close> this is the method of \<^verbatim>\<open>Object.prototype\<close>: it tells
  whether the id is an own property. Once a tag of that id has been dispatched, its
  throttled function shadows the method: the call is a call of that function with the id,
  and what it returns is the undefined result of the throttled arrow function, so the id
  counts as absent.
\<close>

definition hasOwnProperty :: "Deps \<Rightarrow> Config \<Rightarrow> real \<Rightarrow> string \<Rightarrow> State \<Rightarrow> bool \<times> State" where
  "hasOwnProperty d cfg now i s =
     (case tagUpdaters s ''hasOwnProperty'' of
        None \<Rightarrow> (i \<in> dom (tagUpdaters s), s)
      | Some shadow \<Rightarrow>
          (let (shadow', call) = debounced shadow now (IdArgument i)
           in (False,
               invoked d cfg call
                 (s\<lparr>tagUpdaters := (tagUpdaters s)(''hasOwnProperty'' \<mapsto> shadow')\<rparr>))))"

text \<open>
  \<^verbatim>\<open>this.tagUpdaters[id] = f\<close>, \<^verbatim>\<open>this.tagUpdaters[id]\<close>, and the change of the closure
  state of the function that the latter found.
\<close>

definition storeUpdater :: "string \<Rightarrow> Throttled \<Rightarrow> State \<Rightarrow> State" where
  "storeUpdater i th s =
     (if i = ''__proto__''
      then s\<lparr>tagUpdatersPrototype := Some th,
             orphanedUpdaters := orphanedUpdaters s
               @ (case tagUpdatersPrototype s of None \<Rightarrow> [] | Some old \<Rightarrow> [old])\<rparr>
      else s\<lparr>tagUpdaters := (tagUpdaters s)(i \<mapsto> th),
             orphanedUpdaters := orphanedUpdaters s
               @ (case tagUpdaters s i of None \<Rightarrow> [] | Some old \<Rightarrow> [old])\<rparr>)"

definition lookupUpdater :: "string \<Rightarrow> State \<Rightarrow> Throttled option" where
  "lookupUpdater i s = (if i = ''__proto__'' then tagUpdatersPrototype s else tagUpdaters s i)"

definition updateUpdater :: "string \<Rightarrow> Throttled \<Rightarrow> State \<Rightarrow> State" where
  "updateUpdater i th s =
     (if i = ''__proto__'' then s\<lparr>tagUpdatersPrototype := Some th\<rparr>
      else s\<lparr>tagUpdaters := (tagUpdaters s)(i \<mapsto> th)\<rparr>)"

text \<open>
  Once a throttled function is the prototype of the registry, the registry inherits the
  properties of a function. The assignment of a name that it does not own throws, in the
  strict mode of a class body, when the inherited property cannot be written: the
  read-only \<^verbatim>\<open>name\<close> and \<^verbatim>\<open>length\<close> of the function, and \<^verbatim>\<open>caller\<close> and
  \<^verbatim>\<open>arguments\<close>, which a function owns read-only or inherits from
  \<^verbatim>\<open>Function.prototype\<close> as accessors whose setter throws.
\<close>

definition assignmentThrows :: "string \<Rightarrow> State \<Rightarrow> bool" where
  "assignmentThrows i s =
     (tagUpdatersPrototype s \<noteq> None \<and> tagUpdaters s i = None
      \<and> i \<in> {''name'', ''length'', ''caller'', ''arguments''})"

text \<open>
  Lines 124 to 131 of \<^verbatim>\<open>handleDiscovery\<close>: a throttled function is made and stored
  when the registry does not have the id, and the function found under the id is called
  with the event. The lookup finds a function whenever one has just been stored or the
  id is an own property; the call of a missing one would throw. An assignment that throws
  ends the handler.
\<close>

definition throttledDispatch ::
  "Deps \<Rightarrow> Config \<Rightarrow> real \<Rightarrow> NewDistanceEvent \<Rightarrow> State \<Rightarrow> error option \<times> State" where
  "throttledDispatch d cfg now event s =
     (let i = tagId event;
          (present, s1) = hasOwnProperty d cfg now i s
      in if \<not> present \<and> assignmentThrows i s1 then (Some TypeError, s1)
         else (let s2 = (if present then s1
                         else storeUpdater i (newThrottled (updateFrequency cfg * 1000)) s1)
               in case lookupUpdater i s2 of
                    None \<Rightarrow> (Some TypeError, s2)
                  | Some th \<Rightarrow>
                      (let (th', call) = debounced th now (EventArgument event)
                       in (None, invoked d cfg call (updateUpdater i th' s2)))))"

text \<open>The timer of the throttled function found under \<open>i\<close> fires at \<open>now\<close>.\<close>

definition throttleTimerFires :: "Deps \<Rightarrow> Config \<Rightarrow> real \<Rightarrow> string \<Rightarrow> State \<Rightarrow> State" where
  "throttleTimerFires d cfg now i s =
     (case lookupUpdater i s of
        None \<Rightarrow> s
      | Some th \<Rightarrow>
          (case timerId th of
             None \<Rightarrow> s
           | Some due \<Rightarrow>
               if now < due then s
               else (let (th', call) = timerExpired th now
                     in invoked d cfg call (updateUpdater i th' s))))"

text \<open>The timer of the \<open>k\<close>-th replaced function fires at \<open>now\<close>.\<close>

definition orphanTimerFires :: "Deps \<Rightarrow> Config \<Rightarrow> real \<Rightarrow> nat \<Rightarrow> State \<Rightarrow> State" where
  "orphanTimerFires d cfg now k s =
     (if k < length (orphanedUpdaters s)
      then (case timerId (orphanedUpdaters s ! k) of
              None \<Rightarrow> s
            | Some due \<Rightarrow>
                if now < due then s
                else (let (th', call) = timerExpired (orphanedUpdaters s ! k) now
                      in invoked d cfg call
                           (s\<lparr>orphanedUpdaters := (orphanedUpdaters s)[k := th']\<rparr>)))
      else s)"

section \<open>Discovery\<close>

text \<open>
  \<^verbatim>\<open>applyOverrides\<close>. \<open>tagOverrides\<close> are the own properties of the configured object;
  an override configured under the name \<^verbatim>\<open>hasOwnProperty\<close> shadows the method that
  is called first, and the call of it, an object, throws.
\<close>

definition applyOverrides :: "Config \<Rightarrow> Tag \<Rightarrow> error + Tag" where
  "applyOverrides cfg tag =
     (if tagOverrides cfg ''hasOwnProperty'' \<noteq> None then Inl TypeError
      else case tagOverrides cfg (tag_id tag) of
        None \<Rightarrow> Inr tag
      | Some overrides \<Rightarrow>
          (let t1 = (case override_name overrides of
                       None \<Rightarrow> tag | Some n \<Rightarrow> tag\<lparr>tag_name := n\<rparr>);
               t2 = (case override_measuredPower overrides of
                       None \<Rightarrow> t1 | Some mp \<Rightarrow> t1\<lparr>measuredPower := mp\<rparr>)
           in Inr (case (override_batteryMask overrides, beacon t2) of
                     (Some m, Some b) \<Rightarrow> t2\<lparr>beacon := Some (b\<lparr>batteryMask := m\<rparr>)\<rparr>
                   | _ \<Rightarrow> t2)))"

text \<open>
  \<^verbatim>\<open>x > this.config.maxDistance\<close>: a comparison with \<^verbatim>\<open>undefined\<close> is false.
\<close>

definition exceeds :: "real \<Rightarrow> real option \<Rightarrow> bool" where
  "exceeds x limit = (case limit of None \<Rightarrow> False | Some m \<Rightarrow> x > m)"

text \<open>The event \<^verbatim>\<open>handleDiscovery\<close> constructs from the filtered tag.\<close>

definition newDistanceEvent :: "Deps \<Rightarrow> Config \<Rightarrow> Tag \<Rightarrow> NewDistanceEvent" where
  "newDistanceEvent d cfg tag =
     \<lparr>ev_instanceName = instanceName d,
      tagId = tag_id tag,
      tagName = tag_name tag,
      peripheralId = peripheral_id (peripheral tag),
      ev_isApp = isApp tag,
      ev_rssi = rssi tag,
      ev_measuredPower = measuredPower tag,
      ev_distance = distance d tag,
      outOfRange = exceeds (distance d tag) (maxDistance cfg),
      ev_batteryLevel = (if isInstanceOfIBeacon tag then batteryLevel d tag else None)\<rparr>"

text \<open>\<^verbatim>\<open>filterRssi\<close>: the reading joins the readings of the id and the filter smooths them.\<close>

definition filterRssi :: "Deps \<Rightarrow> string \<Rightarrow> real \<Rightarrow> State \<Rightarrow> real \<times> State" where
  "filterRssi d tid r s =
     (let rs = readings s tid @ [r]
      in (kalmanFilter d rs, s\<lparr>readings := (readings s)(tid := rs)\<rparr>))"

text \<open>
  \<^verbatim>\<open>handleDiscovery\<close> up to its \<^verbatim>\<open>await\<close>: no task is left when only beacons are
  processed and the tag is none.
\<close>

definition handleDiscovery_enter :: "Deps \<Rightarrow> Config \<Rightarrow> Peripheral \<Rightarrow> State \<Rightarrow> State \<times> Task option" where
  "handleDiscovery_enter d cfg p s =
     (let tag = createTag d cfg p in
      if onlyIBeacon cfg \<and> \<not> isInstanceOfIBeacon tag then (s, None)
      else (let (s', task) = applyCompanionAppOverride_enter tag s in (s', Some task)))"

text \<open>
  What \<^verbatim>\<open>handleDiscovery\<close> does with a tag that has passed the filter, up to the
  construction of the event: the configured overrides, the smoothing of the signal
  strength, and the event built from the tag so changed.
\<close>

definition filteredEvent ::
  "Deps \<Rightarrow> Config \<Rightarrow> Tag \<Rightarrow> State \<Rightarrow> error + NewDistanceEvent \<times> State" where
  "filteredEvent d cfg tag s =
     (case applyOverrides cfg tag of
        Inl e \<Rightarrow> Inl e
      | Inr t1 \<Rightarrow>
          (let (r, s') = filterRssi d (tag_id t1) (rssi t1) s;
               t2 = t1\<lparr>rssi := r\<rparr>
           in Inr (newDistanceEvent d cfg t2, s')))"

text \<open>
  \<^verbatim>\<open>handleDiscovery\<close> after its \<^verbatim>\<open>await\<close>, at time \<open>now\<close>, with the tag that
  \<^verbatim>\<open>applyCompanionAppOverride\<close> returned. A pattern that does not compile throws out
  of the filter, and a shadowed \<^verbatim>\<open>hasOwnProperty\<close> out of the overrides, after the id
  has been recorded as seen.
\<close>

definition handleDiscovery_resume :: "Deps \<Rightarrow> Config \<Rightarrow> real \<Rightarrow> Tag \<Rightarrow> State \<Rightarrow> error option \<times> State" where
  "handleDiscovery_resume d cfg now tag s =
     (let s1 = s\<lparr>seenIds := insert (tag_id tag) (seenIds s)\<rparr> in
      case passesFilter d cfg (tag_id tag) of
        Inl e \<Rightarrow> (Some e, s1)
      | Inr False \<Rightarrow> (None, s1)
      | Inr True \<Rightarrow>
          (case filteredEvent d cfg tag s1 of
             Inl e \<Rightarrow> (Some e, s1)
           | Inr (event, s2) \<Rightarrow> throttledDispatch d cfg now event s2))"

section \<open>The event loop\<close>

text \<open>
  The callbacks of the service interleave on one thread: each runs from one suspension
  point to the next without interruption. The system is the service state, the suspended
  tasks and the clock.
\<close>

record System =
  state :: State
  tasks :: "Task list"
  clock :: real

definition initialSystem :: System where
  "initialSystem = \<lparr>state = initialState, tasks = [], clock = 0\<rparr>"

text \<open>
  What can happen next: the radio reports an advertisement; the handshake awaited by the
  \<open>k\<close>-th task settles; the \<open>k\<close>-th task, suspended after the resolver, continues; the
  cluster bus delivers an event; a denylist timer, the timer of the throttled function
  found under an id or the timer of a replaced throttled function fires; time passes.
\<close>

datatype Event =
    Advertisement Peripheral
  | HandshakeSettled nat "unit Promise" RaceResult
  | Continued nat
  | ClusterMessage NewDistanceEvent
  | DenylistTimer nat
  | ThrottleTimer string
  | OrphanTimer nat
  | Elapsed real

definition removeTask :: "nat \<Rightarrow> Task list \<Rightarrow> Task list" where
  "removeTask k ts = take k ts @ drop (Suc k) ts"

fun step :: "Deps \<Rightarrow> Config \<Rightarrow> Event \<Rightarrow> System \<Rightarrow> System" where
  "step d cfg (Advertisement p) sys =
     (case handleDiscovery_enter d cfg p (state sys) of
        (s', None) \<Rightarrow> sys\<lparr>state := s'\<rparr>
      | (s', Some task) \<Rightarrow> sys\<lparr>state := s', tasks := tasks sys @ [task]\<rparr>)"
| "step d cfg (HandshakeSettled k connect race) sys =
     (if k < length (tasks sys)
      then (case tasks sys ! k of
              Handshake tag \<Rightarrow>
                (let (s', task) =
                       applyCompanionAppOverride_resume (clock sys) tag
                         (discoverCompanionAppId connect race) (state sys)
                 in sys\<lparr>state := s', tasks := removeTask k (tasks sys) @ [task]\<rparr>)
            | Continue tag \<Rightarrow> sys)
      else sys)"
| "step d cfg (Continued k) sys =
     (if k < length (tasks sys)
      then (case tasks sys ! k of
              Continue tag \<Rightarrow>
                sys\<lparr>state := snd (handleDiscovery_resume d cfg (clock sys) tag (state sys)),
                    tasks := removeTask k (tasks sys)\<rparr>
            | Handshake tag \<Rightarrow> sys)
      else sys)"
| "step d cfg (ClusterMessage event) sys =
     sys\<lparr>state := handleNewDistance d cfg event (state sys)\<rparr>"
| "step d cfg (DenylistTimer k) sys =
     (if k < length (denylistTimers (state sys))
         \<and> fst (denylistTimers (state sys) ! k) \<le> clock sys
      then sys\<lparr>state := denylistTimerFires k (state sys)\<rparr>
      else sys)"
| "step d cfg (ThrottleTimer i) sys =
     sys\<lparr>state := throttleTimerFires d cfg (clock sys) i (state sys)\<rparr>"
| "step d cfg (OrphanTimer k) sys =
     sys\<lparr>state := orphanTimerFires d cfg (clock sys) k (state sys)\<rparr>"
| "step d cfg (Elapsed dt) sys =
     (if 0 \<le> dt then sys\<lparr>clock := clock sys + dt\<rparr> else sys)"

fun run :: "Deps \<Rightarrow> Config \<Rightarrow> Event list \<Rightarrow> System \<Rightarrow> System" where
  "run d cfg [] sys = sys"
| "run d cfg (e # es) sys = run d cfg es (step d cfg e sys)"

text \<open>The identities whose handshake is outstanding, one entry for each handshake.\<close>

fun outstanding :: "Task list \<Rightarrow> string list" where
  "outstanding [] = []"
| "outstanding (Handshake tag # ts) = tag_id tag # outstanding ts"
| "outstanding (Continue tag # ts) = outstanding ts"

section \<open>Notions used in the statements\<close>

text \<open>
  The entities that \<^verbatim>\<open>createRoomPresenceSensor\<close> registers for a sensor id and a device
  name, in the order of registration: the tracker, the battery sensor when the device
  reports a battery, and the presence sensor.
\<close>

definition createdEntities :: "Deps \<Rightarrow> Config \<Rightarrow> string \<Rightarrow> string \<Rightarrow> bool \<Rightarrow> Entity list" where
  "createdEntities d cfg sensorId deviceName hasBattery =
     [DeviceTracker (makeId d (sensorId @ ''-tracker'')) (deviceName @ '' Tracker'')]
     @ (if hasBattery then [Sensor (makeId d (sensorId @ ''-battery'')) (deviceName @ '' Battery'')]
        else [])
     @ [BluetoothLowEnergyPresenceSensor sensorId (deviceName @ '' Room Presence'') (timeout cfg)
          (makeId d (sensorId @ ''-tracker''))
          (if hasBattery then Some (makeId d (sensorId @ ''-battery'')) else None)]"

text \<open>
  The deliveries of events, in the order of the calls: an event applied to a presence
  sensor of the local aggregator, and an event published on the cluster bus.
\<close>

datatype Delivery = ToAggregator NewDistanceEvent | ToCluster NewDistanceEvent

fun deliveries :: "Effect list \<Rightarrow> Delivery list" where
  "deliveries [] = []"
| "deliveries (Measured i e # fs) = ToAggregator e # deliveries fs"
| "deliveries (Published e # fs) = ToCluster e # deliveries fs"
| "deliveries (f # fs) = deliveries fs"

text \<open>One dispatch of an event: to the local aggregator first, then to the cluster bus.\<close>

definition dispatched :: "NewDistanceEvent \<Rightarrow> Delivery list" where
  "dispatched e = [ToAggregator e, ToCluster e]"

text \<open>
  A burst of observations: \<^verbatim>\<open>handleDiscovery\<close> reaches its throttled call with each
  event at its time, and no timer fires in between.
\<close>

fun observe :: "Deps \<Rightarrow> Config \<Rightarrow> (real \<times> NewDistanceEvent) list \<Rightarrow> State \<Rightarrow> State" where
  "observe d cfg [] s = s"
| "observe d cfg ((t, e) # rest) s = observe d cfg rest (snd (throttledDispatch d cfg t e s))"






text \<open>No key leaves the companion cache and no resolved identity becomes null.\<close>

definition cacheGrows :: "State \<Rightarrow> State \<Rightarrow> bool" where
  "cacheGrows s s' =
     (dom (companionAppTags s) \<subseteq> dom (companionAppTags s')
      \<and> (\<forall>t. notNull (companionAppTags s t) \<longrightarrow> notNull (companionAppTags s' t)))"

text \<open>
  The invariant of the event loop: no identity has two outstanding handshakes, and every
  identity with an outstanding handshake has an entry in the cache.
\<close>

definition handshakesGuarded :: "System \<Rightarrow> bool" where
  "handshakesGuarded sys =
     (distinct (outstanding (tasks sys))
      \<and> set (outstanding (tasks sys)) \<subseteq> dom (companionAppTags (state sys)))"

text \<open>The identity \<open>i\<close> is resolved and no handshake for it is outstanding.\<close>

definition resolvedAndIdle :: "string \<Rightarrow> System \<Rightarrow> bool" where
  "resolvedAndIdle i sys =
     (i \<notin> set (outstanding (tasks sys)) \<and> notNull (companionAppTags (state sys) i))"

text \<open>
  An event is the event of a tag: its fields are the tag's, its distance is the tag's
  derived distance, it is flagged as out of range exactly when that distance is strictly
  greater than the configured maximum (never when none is configured), and it carries a
  battery level when the tag is a beacon that reports one.
\<close>

definition eventOfTag :: "Deps \<Rightarrow> Config \<Rightarrow> Tag \<Rightarrow> NewDistanceEvent \<Rightarrow> bool" where
  "eventOfTag d cfg tag e =
     (ev_instanceName e = instanceName d \<and> tagId e = tag_id tag \<and> tagName e = tag_name tag
      \<and> peripheralId e = peripheral_id (peripheral tag) \<and> ev_isApp e = isApp tag
      \<and> ev_rssi e = rssi tag \<and> ev_measuredPower e = measuredPower tag
      \<and> ev_distance e = distance d tag
      \<and> outOfRange e = (case maxDistance cfg of None \<Rightarrow> False | Some m \<Rightarrow> distance d tag > m)
      \<and> ev_batteryLevel e = (if isInstanceOfIBeacon tag then batteryLevel d tag else None))"

text \<open>
  The tag as \<^verbatim>\<open>handleDiscovery\<close> holds it when it builds the event: \<open>t\<close> with the
  configured overrides applied and the smoothed signal strength.
\<close>

definition filteredTag :: "Deps \<Rightarrow> Config \<Rightarrow> Tag \<Rightarrow> State \<Rightarrow> Tag \<Rightarrow> bool" where
  "filteredTag d cfg tag s t =
     (\<exists>t1. applyOverrides cfg tag = Inr t1
         \<and> t = t1\<lparr>rssi := kalmanFilter d (readings s (tag_id t1) @ [rssi t1])\<rparr>)"

text \<open>
  Every event that a state holds for dispatch or has published is the event of a tag:
  an argument, the arguments a throttled function holds, and all of a state.
\<close>

definition argumentOfTag :: "Deps \<Rightarrow> Config \<Rightarrow> Argument option \<Rightarrow> bool" where
  "argumentOfTag d cfg a =
     (case a of Some (EventArgument e) \<Rightarrow> (\<exists>tag. eventOfTag d cfg tag e) | _ \<Rightarrow> True)"

definition throttleOfTags :: "Deps \<Rightarrow> Config \<Rightarrow> Throttled \<Rightarrow> bool" where
  "throttleOfTags d cfg th = argumentOfTag d cfg (lastArgs th)"

definition eventsOfTags :: "Deps \<Rightarrow> Config \<Rightarrow> State \<Rightarrow> bool" where
  "eventsOfTags d cfg s =
     ((\<forall>e. Published e \<in> set (effects s) \<longrightarrow> (\<exists>tag. eventOfTag d cfg tag e))
      \<and> (\<forall>i th. tagUpdaters s i = Some th \<longrightarrow> throttleOfTags d cfg th)
      \<and> (\<forall>th. tagUpdatersPrototype s = Some th \<longrightarrow> throttleOfTags d cfg th)
      \<and> (\<forall>th \<in> set (orphanedUpdaters s). throttleOfTags d cfg th))"

section \<open>Example inputs\<close>

text \<open>
  Collaborators for the examples: a matcher for which every pattern compiles and matches
  exactly itself, a filter that returns the newest reading, and an id maker that replaces
  blanks by dashes.
\<close>

definition exampleDeps :: Deps where
  "exampleDeps =
     \<lparr>calibration = (\<lambda>p. - 59),
      distance = (\<lambda>t. rssi t / measuredPower t),
      batteryLevel = (\<lambda>t. None),
      kalmanFilter = (\<lambda>rs. if rs = [] then 0 else last rs),
      makeId = map (\<lambda>c. if c = CHR '' '' then CHR ''-'' else c),
      instanceName = ''kitchen'',
      regexMatch = (\<lambda>i r. Some (r = i))\<rparr>"

definition exampleConfig :: Config where
  "exampleConfig =
     \<lparr>allowlist = Some [''AA:BB:CC''], whitelist = None, denylist = None, blacklist = None,
      allowlistRegex = False, whitelistRegex = False, denylistRegex = False,
      blacklistRegex = False, processIBeacon = True, onlyIBeacon = False,
      maxDistance = Some 5, updateFrequency = 2, timeout = 5,
      cfg_majorMask = 65535, cfg_minorMask = 65535, cfg_batteryMask = 0,
      tagOverrides = Map.empty\<rparr>"

text \<open>A peripheral that advertises the beacon layout in 25 bytes.\<close>

definition beaconPeripheral :: Peripheral where
  "beaconPeripheral =
     \<lparr>peripheral_id = ''aa:bb:cc'', peripheral_name = ''beacon'', connectable = False,
      peripheral_rssi = - 70,
      manufacturerData = Some ([0x4c, 0x00, 0x02, 0x15] @ replicate 21 0)\<rparr>"

text \<open>A connectable peripheral with the vendor marker in seven bytes.\<close>

definition phonePeripheral :: Peripheral where
  "phonePeripheral =
     \<lparr>peripheral_id = ''aa:bb:cc'', peripheral_name = ''phone'', connectable = True,
      peripheral_rssi = - 70,
      manufacturerData = Some [0x4c, 0x00, 0x10, 0x05, 0x01, 0x18, 0x2a]\<rparr>"

text \<open>The tags of the two peripherals, and the events of the examples.\<close>

definition phoneTag :: Tag where
  "phoneTag = newTag exampleDeps phonePeripheral"

definition beaconTag :: Tag where
  "beaconTag = newIBeacon exampleDeps beaconPeripheral 65535 65535 0"

definition exampleEvent :: "real \<Rightarrow> NewDistanceEvent" where
  "exampleEvent r =
     \<lparr>ev_instanceName = ''kitchen'', tagId = ''aa:bb:cc'', tagName = ''phone'',
      peripheralId = ''aa:bb:cc'', ev_isApp = False, ev_rssi = r, ev_measuredPower = - 59,
      ev_distance = r / (- 59), outOfRange = False, ev_batteryLevel = None\<rparr>"

definition namedEvent :: "string \<Rightarrow> real \<Rightarrow> NewDistanceEvent" where
  "namedEvent i r = (exampleEvent r)\<lparr>tagId := i\<rparr>"

definition beaconEvent :: "bool \<Rightarrow> NewDistanceEvent" where
  "beaconEvent far =
     \<lparr>ev_instanceName = ''kitchen'', tagId = ''aa:bb:cc'', tagName = ''beacon'',
      peripheralId = ''aa:bb:cc'', ev_isApp = False, ev_rssi = - 70, ev_measuredPower = - 59,
      ev_distance = 70 / 59, outOfRange = far, ev_batteryLevel = None\<rparr>"

text \<open>
  The service after a first throttle interval of the example device: two observations, at
  0 and at 1000 ms, and the timer of the interval at 2000 ms.
\<close>

definition afterWindow :: State where
  "afterWindow =
     throttleTimerFires exampleDeps exampleConfig 2000 ''aa:bb:cc''
       (observe exampleDeps exampleConfig
          [(0, exampleEvent (- 70)), (1000, exampleEvent (- 71))] initialState)"


section \<open>Advertisement classifier: properties\<close>

lemma readUInt16LE_marker:
  "readUInt16LE b 0 = 0x004c \<longleftrightarrow> b ! 0 = 0x4c \<and> b ! 1 = 0x00"
proof -
  have "unat (b ! 0) + 256 * unat (b ! 1) = 76 \<longleftrightarrow> unat (b ! 0) = 76 \<and> unat (b ! 1) = 0"
    by arith
  moreover have "unat (b ! 0) = 76 \<longleftrightarrow> b ! 0 = 0x4c"
    using word_unat_eq_iff [of "b ! 0" "0x4c"] by simp
  moreover have "unat (b ! 1) = 0 \<longleftrightarrow> b ! 1 = 0"
    using word_unat_eq_iff [of "b ! 1" 0] by simp
  ultimately show ?thesis by (simp add: readUInt16LE_def)
qed

lemma readUInt8_type: "readUInt8 b 2 = 0x02 \<longleftrightarrow> b ! 2 = 0x02"
  using word_unat_eq_iff [of "b ! 2" "0x02"] by (simp add: readUInt8_def)

lemma readUInt8_length: "readUInt8 b 3 = 0x15 \<longleftrightarrow> b ! 3 = 0x15"
  using word_unat_eq_iff [of "b ! 3" "0x15"] by (simp add: readUInt8_def)

lemma isIBeacon_layout: "isIBeacon md = beaconLayout md"
  by (cases md)
     (simp_all add: isIBeacon_def beaconLayout_def readUInt16LE_marker readUInt8_type
        readUInt8_length)

lemma not_beacon_newTag: "\<not> isInstanceOfIBeacon (newTag d p)"
  by (simp add: isInstanceOfIBeacon_def newTag_def)

lemma beacon_newIBeacon: "isInstanceOfIBeacon (newIBeacon d p a b c)"
  by (simp add: isInstanceOfIBeacon_def newIBeacon_def)

lemma beaconPeripheral_layout: "beaconLayout (manufacturerData beaconPeripheral)"
  by (simp add: beaconLayout_def beaconPeripheral_def)

text \<open>
  C5, as stated, fails: with \<open>processIBeacon\<close> switched off, an advertisement with the
  beacon layout is classified as a generic tag.
\<close>

theorem createTag_layout_counterexample:
  "beaconLayout (manufacturerData beaconPeripheral)
   \<and> \<not> isInstanceOfIBeacon
         (createTag exampleDeps (exampleConfig\<lparr>processIBeacon := False\<rparr>) beaconPeripheral)"
  by (simp add: beaconPeripheral_layout createTag_def not_beacon_newTag)

text \<open>
  C5, amended: classification yields an IBeacon exactly when beacon processing is enabled
  and the manufacturer buffer is at least 25 bytes long with the bytes 0x4c, 0x00 (the
  company identifier 0x004c, little endian), 0x02 and 0x15 at offsets 0 to 3; in every
  other case (processing disabled, buffer absent, shorter, or with other markers) it
  yields a generic tag.
\<close>

theorem createTag_classification:
  "isInstanceOfIBeacon (createTag d cfg p)
     = (processIBeacon cfg \<and> beaconLayout (manufacturerData p))"
  by (simp add: createTag_def isIBeacon_layout not_beacon_newTag beacon_newIBeacon)

section \<open>Allow/deny filter: properties\<close>






lemma toLowerCase_example: "toLowerCase ''AA:BB:CC'' = ''aa:bb:cc''" "toLowerCase ''aa:bb:cc'' = ''aa:bb:cc''"
  by code_simp+



section \<open>Companion cache update: properties\<close>

lemma handleAppDiscovery_other:
  "k \<noteq> t \<Longrightarrow> companionAppTags (handleAppDiscovery k v s) t = companionAppTags s t"
  by (simp add: handleAppDiscovery_def Let_def)

lemma handleAppDiscovery_notNull:
  "notNull (companionAppTags s t) \<Longrightarrow> notNull (companionAppTags (handleAppDiscovery k v s) t)"
  by (auto simp: handleAppDiscovery_def Let_def notNull_def split: option.splits)

lemma handleAppDiscovery_entities:
  "entities (handleAppDiscovery k v s) = entities s" "effects (handleAppDiscovery k v s) = effects s"
  by (simp_all add: handleAppDiscovery_def Let_def)

lemma has_handleAppDiscovery: "has i (handleAppDiscovery k v s) = has i s"
  by (simp add: has_def handleAppDiscovery_entities)

lemma handleAppDiscovery_updaters: "tagUpdaters (handleAppDiscovery k v s) = tagUpdaters s"
  by (simp add: handleAppDiscovery_def Let_def)

text \<open>
  C6: when the cache maps \<open>t\<close> to a non-null application identity, an update of \<open>t\<close>
  with null leaves the whole state unchanged, and no update of any key with any value
  makes the entry of \<open>t\<close> null or removes it.
\<close>

theorem handleAppDiscovery_keeps_resolved:
  assumes "notNull (companionAppTags s t)"
  shows "handleAppDiscovery t None s = s
    \<and> notNull (companionAppTags (handleAppDiscovery k appId s) t)"
  using assms by (auto simp: handleAppDiscovery_def Let_def notNull_def split: option.splits)

theorem handleAppDiscovery_keeps_resolved_witness:
  "notNull (companionAppTags (initialState\<lparr>companionAppTags := [''aa:bb:cc'' \<mapsto> Some ''app-1'']\<rparr>) ''aa:bb:cc'')
   \<and> handleAppDiscovery ''aa:bb:cc'' None
        (initialState\<lparr>companionAppTags := [''aa:bb:cc'' \<mapsto> Some ''app-1'']\<rparr>)
      = initialState\<lparr>companionAppTags := [''aa:bb:cc'' \<mapsto> Some ''app-1'']\<rparr>"
proof -
  have h: "notNull (companionAppTags (initialState\<lparr>companionAppTags := [''aa:bb:cc'' \<mapsto> Some ''app-1'']\<rparr>) ''aa:bb:cc'')"
    by (simp add: notNull_def)
  show ?thesis
    using h handleAppDiscovery_keeps_resolved [OF h, of "''aa:bb:cc''" None] by simp
qed

section \<open>Presence sensors: properties\<close>

lemma createRoomPresenceSensor_entities:
  "entities (createRoomPresenceSensor d cfg sid dev n hb s)
     = entities s @ createdEntities d cfg sid n hb"
  by (simp add: createRoomPresenceSensor_def createdEntities_def Let_def add_def
      createDeviceTracker_def createBatterySensor_def)

lemma createRoomPresenceSensor_effects:
  "effects (createRoomPresenceSensor d cfg sid dev n hb s)
     = effects s @ map Registered (createdEntities d cfg sid n hb)
        @ [IntervalAdded (sid @ ''_timeout_check'') (timeout cfg * 1000)]"
  by (simp add: createRoomPresenceSensor_def createdEntities_def Let_def add_def
      createDeviceTracker_def createBatterySensor_def)

lemma createRoomPresenceSensor_cache:
  "companionAppTags (createRoomPresenceSensor d cfg sid dev n hb s) = companionAppTags s"
  by (simp add: createRoomPresenceSensor_def Let_def add_def createDeviceTracker_def
      createBatterySensor_def)

lemma createRoomPresenceSensor_updaters:
  "tagUpdaters (createRoomPresenceSensor d cfg sid dev n hb s) = tagUpdaters s"
  by (simp add: createRoomPresenceSensor_def Let_def add_def createDeviceTracker_def
      createBatterySensor_def)

lemma handleNewDistance_effects:
  "effects (handleNewDistance d cfg event s)
     = effects s
       @ (if has (makeId d (''ble '' @ tagId event)) s then []
          else map Registered
                 (createdEntities d cfg (makeId d (''ble '' @ tagId event)) (tagName event)
                    (ev_batteryLevel event \<noteq> None))
               @ [IntervalAdded (makeId d (''ble '' @ tagId event) @ ''_timeout_check'')
                    (timeout cfg * 1000)])
       @ [Measured (makeId d (''ble '' @ tagId event)) event]"
  by (simp add: handleNewDistance_def Let_def has_handleAppDiscovery handleAppDiscovery_entities
      createRoomPresenceSensor_effects del: not_None_eq)

lemma handleNewDistance_cache:
  "companionAppTags (handleNewDistance d cfg e s)
     = companionAppTags (if ev_isApp e then handleAppDiscovery (peripheralId e) (Some (tagId e)) s else s)"
  by (simp add: handleNewDistance_def Let_def createRoomPresenceSensor_cache)

lemma handleNewDistance_updaters: "tagUpdaters (handleNewDistance d cfg ev s) = tagUpdaters s"
  by (simp add: handleNewDistance_def Let_def createRoomPresenceSensor_updaters
      handleAppDiscovery_updaters)

lemma handleNewDistance_registry:
  "entities (handleNewDistance d cfg event s)
     = entities s
       @ (if has (makeId d (''ble '' @ tagId event)) s then []
          else createdEntities d cfg (makeId d (''ble '' @ tagId event)) (tagName event)
                 (ev_batteryLevel event \<noteq> None))"
  by (simp add: handleNewDistance_def Let_def has_handleAppDiscovery handleAppDiscovery_entities
      createRoomPresenceSensor_entities del: not_None_eq)

text \<open>
  C8: handling a distance event for a device without a presence sensor registers, in this
  order, a device tracker, a battery sensor exactly when the event carries a battery level,
  and the room presence sensor, then schedules the sensor's timeout check, and only then
  applies the measurement to the sensor; for a device whose presence sensor exists nothing
  is registered and the measurement is the only call.
\<close>

theorem handleNewDistance_creates_then_measures:
  "entities (handleNewDistance d cfg event s)
     = entities s
       @ (if has (makeId d (''ble '' @ tagId event)) s then []
          else createdEntities d cfg (makeId d (''ble '' @ tagId event)) (tagName event)
                 (ev_batteryLevel event \<noteq> None))
   \<and> effects (handleNewDistance d cfg event s)
     = effects s
       @ (if has (makeId d (''ble '' @ tagId event)) s then []
          else map Registered
                 (createdEntities d cfg (makeId d (''ble '' @ tagId event)) (tagName event)
                    (ev_batteryLevel event \<noteq> None))
               @ [IntervalAdded (makeId d (''ble '' @ tagId event) @ ''_timeout_check'')
                    (timeout cfg * 1000)])
       @ [Measured (makeId d (''ble '' @ tagId event)) event]"
proof -
  have e: "entities (handleNewDistance d cfg event s)
     = entities s
       @ (if has (makeId d (''ble '' @ tagId event)) s then []
          else createdEntities d cfg (makeId d (''ble '' @ tagId event)) (tagName event)
                 (ev_batteryLevel event \<noteq> None))"
    by (rule handleNewDistance_registry)
  have f: "effects (handleNewDistance d cfg event s)
     = effects s
       @ (if has (makeId d (''ble '' @ tagId event)) s then []
          else map Registered
                 (createdEntities d cfg (makeId d (''ble '' @ tagId event)) (tagName event)
                    (ev_batteryLevel event \<noteq> None))
               @ [IntervalAdded (makeId d (''ble '' @ tagId event) @ ''_timeout_check'')
                    (timeout cfg * 1000)])
       @ [Measured (makeId d (''ble '' @ tagId event)) event]"
    by (rule handleNewDistance_effects)
  from e f show ?thesis by (rule conjI)
qed

section \<open>Companion identity resolver: properties\<close>

lemma phoneTag_gate: "companionGate phoneTag"
  by (simp add: companionGate_def phoneTag_def newTag_def phonePeripheral_def APPLE_ADVERTISEMENT_ID_def)

lemma phoneTag_id: "tag_id phoneTag = ''aa:bb:cc''"
  by (simp add: phoneTag_def newTag_def phonePeripheral_def)

text \<open>
  C7: \<^verbatim>\<open>applyCompanionAppOverride\<close> starts a handshake for a tag exactly when the
  peripheral is connectable, its manufacturer data begins with the three bytes of the vendor
  marker and is longer than six bytes, and the tag's id is neither in the cache nor on the
  companion denylist. When the id is cached (resolved or pending) or denylisted, no
  handshake is started, the state is unchanged, and the tag is returned with the cached
  identity as its id and marked as an application, when that identity is not null, and
  unchanged otherwise.
\<close>

theorem applyCompanionAppOverride_gate:
  "(snd (applyCompanionAppOverride_enter tag s) = Handshake tag)
     = (connectable (peripheral tag)
        \<and> (\<exists>b. manufacturerData (peripheral tag) = Some b \<and> take 3 b = APPLE_ADVERTISEMENT_ID
               \<and> length b > 6)
        \<and> tag_id tag \<notin> dom (companionAppTags s) \<and> tag_id tag \<notin> companionAppDenylist s)
   \<and> (tag_id tag \<in> dom (companionAppTags s) \<or> tag_id tag \<in> companionAppDenylist s \<longrightarrow>
        applyCompanionAppOverride_enter tag s
          = (s, Continue (case companionAppTags s (tag_id tag) of
                            Some (Some appId) \<Rightarrow> tag\<lparr>tag_id := appId, isApp := True\<rparr>
                          | _ \<Rightarrow> tag)))"
  by (auto simp: applyCompanionAppOverride_enter_def startsHandshake_def companionGate_def
      applyCachedId_def split: option.splits)

theorem applyCompanionAppOverride_gate_witness:
  "applyCompanionAppOverride_enter phoneTag
      (initialState\<lparr>companionAppTags := [''aa:bb:cc'' \<mapsto> Some ''app-1'']\<rparr>)
     = (initialState\<lparr>companionAppTags := [''aa:bb:cc'' \<mapsto> Some ''app-1'']\<rparr>,
        Continue (phoneTag\<lparr>tag_id := ''app-1'', isApp := True\<rparr>))
   \<and> snd (applyCompanionAppOverride_enter phoneTag initialState) = Handshake phoneTag"
  using applyCompanionAppOverride_gate
      [of phoneTag "initialState\<lparr>companionAppTags := [''aa:bb:cc'' \<mapsto> Some ''app-1'']\<rparr>"]
    applyCompanionAppOverride_gate [of phoneTag initialState] phoneTag_gate
  by (auto simp: phoneTag_id initialState_def companionGate_def split: option.splits)

lemma discover_connect_rejected [simp]:
  "discoverCompanionAppId (Rejected m) race = Rejected m"
  by (simp add: discoverCompanionAppId_def)

lemma discover_connected:
  "discoverCompanionAppId (Resolved u) race
     = Resolved (case race of ReadSettled (Resolved appId) \<Rightarrow> appId | _ \<Rightarrow> None)"
  by (simp add: discoverCompanionAppId_def split: RaceResult.splits Promise.splits)

lemma resume_rejected_cache:
  "companionAppTags (fst (applyCompanionAppOverride_resume now tag (Rejected m) s)) (tag_id tag) = None"
  by (simp add: applyCompanionAppOverride_resume_def Let_def)

lemma resume_timed_out:
  "companionAppDenylist (fst (applyCompanionAppOverride_resume now tag (Rejected ''timed out'') s))
     = insert (tag_id tag) (companionAppDenylist s)"
  "denylistTimers (fst (applyCompanionAppOverride_resume now tag (Rejected ''timed out'') s))
     = denylistTimers s @ [(now + 180000, tag_id tag)]"
  by (simp_all add: applyCompanionAppOverride_resume_def Let_def)

lemma resume_rejected_other:
  "m \<noteq> ''timed out'' \<Longrightarrow>
     companionAppDenylist (fst (applyCompanionAppOverride_resume now tag (Rejected m) s))
       = companionAppDenylist s"
  by (simp add: applyCompanionAppOverride_resume_def Let_def)

lemma resume_resolved_denylist:
  "companionAppDenylist (fst (applyCompanionAppOverride_resume now tag (Resolved v) s))
     \<subseteq> companionAppDenylist s"
  by (auto simp: applyCompanionAppOverride_resume_def Let_def handleAppDiscovery_def)

lemma resume_resolved_cache:
  "companionAppTags (fst (applyCompanionAppOverride_resume now tag (Resolved v) s)) (tag_id tag) \<noteq> None"
  by (auto simp: applyCompanionAppOverride_resume_def Let_def handleAppDiscovery_def notNull_def
      split: option.splits)

lemma denylistTimerFires_last:
  "denylistTimers s' = ts @ [(due, i)] \<Longrightarrow>
     companionAppDenylist (denylistTimerFires (length ts) s') = companionAppDenylist s' - {i}"
  by (simp add: denylistTimerFires_def)

lemma denylistTimerFires_cache: "companionAppTags (denylistTimerFires k s) = companionAppTags s"
  by (simp add: denylistTimerFires_def)

lemma enter_pending:
  "startsHandshake tag s \<Longrightarrow>
     applyCompanionAppOverride_enter tag s
       = (s\<lparr>companionAppTags := (companionAppTags s)(tag_id tag \<mapsto> None)\<rparr>, Handshake tag)"
  by (simp add: applyCompanionAppOverride_enter_def)

lemma enter_Handshake:
  "applyCompanionAppOverride_enter tag s = (s', Handshake t) \<Longrightarrow>
     t = tag \<and> tag_id tag \<notin> dom (companionAppTags s)
     \<and> companionAppTags s' = (companionAppTags s)(tag_id tag \<mapsto> None)"
  by (auto simp: applyCompanionAppOverride_enter_def startsHandshake_def split: if_splits)

lemma enter_Continue:
  "applyCompanionAppOverride_enter tag s = (s', Continue t) \<Longrightarrow> s' = s"
  by (auto simp: applyCompanionAppOverride_enter_def split: if_splits)

lemma resume_other:
  "t \<noteq> tag_id tag \<Longrightarrow>
     companionAppTags (fst (applyCompanionAppOverride_resume now tag settled s)) t = companionAppTags s t"
  by (cases settled)
     (auto simp: applyCompanionAppOverride_resume_def Let_def handleAppDiscovery_other)

lemma resume_task:
  "\<exists>t. snd (applyCompanionAppOverride_resume now tag settled s) = Continue t"
  by (simp add: applyCompanionAppOverride_resume_def Let_def)

text \<open>
  C1, as stated, fails: when the handshake is connected and the race then ends in the
  15 second timeout, \<^verbatim>\<open>discoverCompanionAppId\<close> catches the rejection and returns null,
  so the identity is not put on the denylist and its pending entry stays in the cache.
\<close>

theorem read_timeout_counterexample:
  "''aa:bb:cc'' \<notin> companionAppDenylist
      (fst (applyCompanionAppOverride_resume 0 phoneTag
             (discoverCompanionAppId (Resolved ()) TimedOut)
             (fst (applyCompanionAppOverride_enter phoneTag initialState))))
   \<and> companionAppTags
      (fst (applyCompanionAppOverride_resume 0 phoneTag
             (discoverCompanionAppId (Resolved ()) TimedOut)
             (fst (applyCompanionAppOverride_enter phoneTag initialState)))) ''aa:bb:cc'' = Some None
   \<and> snd (applyCompanionAppOverride_enter phoneTag initialState) = Handshake phoneTag"
  by (simp add: applyCompanionAppOverride_enter_def startsHandshake_def phoneTag_gate phoneTag_id
      initialState_def discover_connected applyCompanionAppOverride_resume_def
      handleAppDiscovery_def notNull_def Let_def)

text \<open>
  C1, amended: a resolution attempt whose connection is rejected with the message
  \<open>timed out\<close> puts the identity on the companion denylist, registers the timer that takes
  it off again after 3 minutes (180000 ms) and removes the pending cache entry; until that
  timer fires no new attempt is started for the identity, and once it has fired the
  identity is retried on its next eligible advertisement. No other outcome of an attempt adds
  an identity to the denylist; in particular the 15 second timeout of the read race, which
  \<^verbatim>\<open>discoverCompanionAppId\<close> turns into null, adds none and leaves the entry in the cache.
\<close>

theorem timeout_denylisting:
  "tag_id tag \<in> companionAppDenylist
       (fst (applyCompanionAppOverride_resume now tag (discoverCompanionAppId (Rejected ''timed out'') race) s))
   \<and> denylistTimers
       (fst (applyCompanionAppOverride_resume now tag (discoverCompanionAppId (Rejected ''timed out'') race) s))
       = denylistTimers s @ [(now + 180000, tag_id tag)]
   \<and> companionAppTags
       (fst (applyCompanionAppOverride_resume now tag (discoverCompanionAppId (Rejected ''timed out'') race) s))
       (tag_id tag) = None
   \<and> \<not> startsHandshake tag
       (fst (applyCompanionAppOverride_resume now tag (discoverCompanionAppId (Rejected ''timed out'') race) s))
   \<and> startsHandshake tag
       (denylistTimerFires (length (denylistTimers s))
         (fst (applyCompanionAppOverride_resume now tag (discoverCompanionAppId (Rejected ''timed out'') race) s)))
       = companionGate tag
   \<and> (connect \<noteq> Rejected ''timed out'' \<longrightarrow>
        companionAppDenylist
          (fst (applyCompanionAppOverride_resume now tag (discoverCompanionAppId connect race) s))
          \<subseteq> companionAppDenylist s)
   \<and> companionAppTags
       (fst (applyCompanionAppOverride_resume now tag (discoverCompanionAppId (Resolved ()) TimedOut) s))
       (tag_id tag) \<noteq> None"
proof -
  let ?s' = "fst (applyCompanionAppOverride_resume now tag (Rejected ''timed out'') s)"
  have a: "tag_id tag \<in> companionAppDenylist ?s'" by (simp add: resume_timed_out)
  have b: "denylistTimers ?s' = denylistTimers s @ [(now + 180000, tag_id tag)]"
    by (simp add: resume_timed_out)
  have c: "companionAppTags ?s' (tag_id tag) = None" by (rule resume_rejected_cache)
  have d: "\<not> startsHandshake tag ?s'" using a by (simp add: startsHandshake_def)
  have "companionAppDenylist (denylistTimerFires (length (denylistTimers s)) ?s')
          = companionAppDenylist ?s' - {tag_id tag}"
    using b by (rule denylistTimerFires_last)
  then have e: "startsHandshake tag (denylistTimerFires (length (denylistTimers s)) ?s') = companionGate tag"
    using c by (simp add: startsHandshake_def denylistTimerFires_cache dom_def)
  have f: "connect \<noteq> Rejected ''timed out'' \<longrightarrow>
        companionAppDenylist
          (fst (applyCompanionAppOverride_resume now tag (discoverCompanionAppId connect race) s))
          \<subseteq> companionAppDenylist s"
  proof (cases connect)
    case (Resolved u)
    then show ?thesis by (simp add: discover_connected resume_resolved_denylist)
  next
    case (Rejected m)
    then show ?thesis by (simp add: resume_rejected_other)
  qed
  have g: "companionAppTags
       (fst (applyCompanionAppOverride_resume now tag (discoverCompanionAppId (Resolved ()) TimedOut) s))
       (tag_id tag) \<noteq> None"
    by (simp add: discover_connected resume_resolved_cache)
  show ?thesis using a b c d e f g by simp
qed

theorem timeout_denylisting_witness:
  "companionAppDenylist
      (fst (applyCompanionAppOverride_resume 0 phoneTag
             (discoverCompanionAppId (Rejected ''refused'') TimedOut)
             (fst (applyCompanionAppOverride_enter phoneTag initialState))))
     \<subseteq> companionAppDenylist (fst (applyCompanionAppOverride_enter phoneTag initialState))
   \<and> ''aa:bb:cc'' \<in> companionAppDenylist
       (fst (applyCompanionAppOverride_resume 0 phoneTag
              (discoverCompanionAppId (Rejected ''timed out'') TimedOut)
              (fst (applyCompanionAppOverride_enter phoneTag initialState))))"
  using timeout_denylisting [of phoneTag 0 TimedOut
      "fst (applyCompanionAppOverride_enter phoneTag initialState)" "Rejected ''refused''"]
  by (simp add: phoneTag_id)

section \<open>The event loop: one handshake for each identity\<close>

lemma cacheGrows_refl: "cacheGrows s s"
  by (simp add: cacheGrows_def)

lemma handleAppDiscovery_grows: "cacheGrows s (handleAppDiscovery k v s)"
  by (auto simp: cacheGrows_def handleAppDiscovery_def Let_def notNull_def split: option.splits)

lemma handleNewDistance_grows: "cacheGrows s (handleNewDistance d cfg e s)"
  using handleAppDiscovery_grows [of s "peripheralId e" "Some (tagId e)"]
  by (simp add: cacheGrows_def handleNewDistance_cache)

lemma cacheGrows_trans: "cacheGrows s s' \<Longrightarrow> cacheGrows s' s'' \<Longrightarrow> cacheGrows s s''"
  unfolding cacheGrows_def by (meson order_trans)

lemma cacheGrows_same: "companionAppTags s' = companionAppTags s \<Longrightarrow> cacheGrows s s'"
  by (simp add: cacheGrows_def)

lemma handleNewDistanceOfId_cache:
  "companionAppTags (handleNewDistanceOfId d cfg s) = companionAppTags s"
  by (simp add: handleNewDistanceOfId_def Let_def createRoomPresenceSensor_cache)

lemma throttledFunction_grows: "cacheGrows s (throttledFunction d cfg a s)"
proof (cases a)
  case (EventArgument e)
  have "companionAppTags (throttledFunction d cfg a s)
      = companionAppTags (handleNewDistance d cfg e s)"
    using EventArgument by (simp add: dispatch_def Let_def)
  then show ?thesis using handleNewDistance_grows [of s d cfg e] by (simp add: cacheGrows_def)
next
  case (IdArgument i)
  then show ?thesis
    by (simp add: Let_def handleNewDistanceOfId_cache cacheGrows_def)
qed

lemma invoked_grows: "cacheGrows s (invoked d cfg call s)"
  by (cases call) (simp_all add: invoked_def cacheGrows_refl throttledFunction_grows)

lemma invoked_grows_from:
  "companionAppTags s1 = companionAppTags s \<Longrightarrow> cacheGrows s (invoked d cfg call s1)"
  using invoked_grows [of s1 d cfg call] by (simp add: cacheGrows_def)

lemma hasOwnProperty_grows: "cacheGrows s (snd (hasOwnProperty d cfg now i s))"
proof (cases "tagUpdaters s ''hasOwnProperty''")
  case None
  then show ?thesis by (simp add: hasOwnProperty_def cacheGrows_refl)
next
  case (Some shadow)
  obtain shadow' call where dc: "debounced shadow now (IdArgument i) = (shadow', call)"
    by (cases "debounced shadow now (IdArgument i)")
  have "snd (hasOwnProperty d cfg now i s)
      = invoked d cfg call (s\<lparr>tagUpdaters := (tagUpdaters s)(''hasOwnProperty'' \<mapsto> shadow')\<rparr>)"
    using Some dc by (simp add: hasOwnProperty_def)
  then show ?thesis by (simp add: invoked_grows_from)
qed

lemma storeUpdater_cache: "companionAppTags (storeUpdater i th s) = companionAppTags s"
  by (simp add: storeUpdater_def)

lemma updateUpdater_cache: "companionAppTags (updateUpdater i th s) = companionAppTags s"
  by (simp add: updateUpdater_def)

lemma throttledDispatch_grows: "cacheGrows s (snd (throttledDispatch d cfg now e s))"
proof -
  obtain present s1 where h: "hasOwnProperty d cfg now (tagId e) s = (present, s1)"
    by (cases "hasOwnProperty d cfg now (tagId e) s")
  define s2 where "s2 = (if present then s1
      else storeUpdater (tagId e) (newThrottled (updateFrequency cfg * 1000)) s1)"
  have g1: "cacheGrows s s1" using hasOwnProperty_grows [of s d cfg now "tagId e"] h by simp
  have c2: "companionAppTags s2 = companionAppTags s1" by (simp add: s2_def storeUpdater_cache)
  have "cacheGrows s1 (snd (throttledDispatch d cfg now e s))"
  proof (cases "\<not> present \<and> assignmentThrows (tagId e) s1")
    case True
    then have "snd (throttledDispatch d cfg now e s) = s1"
      using h by (simp add: throttledDispatch_def Let_def)
    then show ?thesis by (simp add: cacheGrows_refl)
  next
    case False
    show ?thesis
    proof (cases "lookupUpdater (tagId e) s2")
      case None
      then have "snd (throttledDispatch d cfg now e s) = s2"
        using h False by (auto simp: throttledDispatch_def s2_def Let_def)
      then show ?thesis using c2 by (simp add: cacheGrows_same)
    next
      case (Some th)
      obtain th' call where dc: "debounced th now (EventArgument e) = (th', call)"
        by (cases "debounced th now (EventArgument e)")
      have "snd (throttledDispatch d cfg now e s)
          = invoked d cfg call (updateUpdater (tagId e) th' s2)"
        using h False Some dc by (auto simp: throttledDispatch_def s2_def Let_def)
      then show ?thesis using c2 by (simp add: invoked_grows_from updateUpdater_cache)
    qed
  qed
  with g1 show ?thesis by (rule cacheGrows_trans)
qed

lemma throttleTimerFires_grows: "cacheGrows s (throttleTimerFires d cfg now i s)"
proof (cases "lookupUpdater i s")
  case None
  then show ?thesis by (simp add: throttleTimerFires_def cacheGrows_refl)
next
  case (Some th)
  show ?thesis
  proof (cases "timerId th")
    case None
    then show ?thesis using Some by (simp add: throttleTimerFires_def cacheGrows_refl)
  next
    case (Some due)
    show ?thesis
    proof (cases "now < due")
      case True
      then show ?thesis
        using Some \<open>lookupUpdater i s = Some th\<close>
        by (simp add: throttleTimerFires_def cacheGrows_refl)
    next
      case False
      obtain th' call where te: "timerExpired th now = (th', call)"
        by (cases "timerExpired th now")
      have "throttleTimerFires d cfg now i s = invoked d cfg call (updateUpdater i th' s)"
        using False Some \<open>lookupUpdater i s = Some th\<close> te by (simp add: throttleTimerFires_def)
      then show ?thesis by (simp add: invoked_grows_from updateUpdater_cache)
    qed
  qed
qed

lemma orphanTimerFires_grows: "cacheGrows s (orphanTimerFires d cfg now k s)"
proof (cases "k < length (orphanedUpdaters s)")
  case False
  then show ?thesis by (simp add: orphanTimerFires_def cacheGrows_refl)
next
  case True
  let ?th = "orphanedUpdaters s ! k"
  show ?thesis
  proof (cases "timerId ?th")
    case None
    then show ?thesis using True by (simp add: orphanTimerFires_def cacheGrows_refl)
  next
    case (Some due)
    show ?thesis
    proof (cases "now < due")
      case True
      then show ?thesis
        using Some \<open>k < length (orphanedUpdaters s)\<close>
        by (simp add: orphanTimerFires_def cacheGrows_refl)
    next
      case False
      obtain th' call where te: "timerExpired ?th now = (th', call)"
        by (cases "timerExpired ?th now")
      have "orphanTimerFires d cfg now k s
          = invoked d cfg call (s\<lparr>orphanedUpdaters := (orphanedUpdaters s)[k := th']\<rparr>)"
        using False Some \<open>k < length (orphanedUpdaters s)\<close> te
        by (simp add: orphanTimerFires_def)
      then show ?thesis by (simp add: invoked_grows_from)
    qed
  qed
qed

lemma filteredEvent_cache:
  "filteredEvent d cfg tag s = Inr (e, s') \<Longrightarrow> companionAppTags s' = companionAppTags s"
  by (auto simp: filteredEvent_def filterRssi_def Let_def split: sum.splits)

lemma handleDiscovery_resume_grows: "cacheGrows s (snd (handleDiscovery_resume d cfg now tag s))"
proof (cases "passesFilter d cfg (tag_id tag)")
  case (Inl e)
  then show ?thesis by (simp add: handleDiscovery_resume_def cacheGrows_def)
next
  case (Inr b)
  show ?thesis
  proof (cases b)
    case False
    with Inr show ?thesis by (simp add: handleDiscovery_resume_def cacheGrows_def)
  next
    case True
    let ?s1 = "s\<lparr>seenIds := insert (tag_id tag) (seenIds s)\<rparr>"
    show ?thesis
    proof (cases "filteredEvent d cfg tag ?s1")
      case (Inl e)
      then show ?thesis
        using \<open>passesFilter d cfg (tag_id tag) = Inr b\<close> True
        by (simp add: handleDiscovery_resume_def cacheGrows_def)
    next
      case (Inr r)
      obtain e s2 where r: "r = (e, s2)" by (cases r)
      have c: "companionAppTags s2 = companionAppTags s"
        using filteredEvent_cache [of d cfg tag ?s1 e s2] Inr r by simp
      have "snd (handleDiscovery_resume d cfg now tag s) = snd (throttledDispatch d cfg now e s2)"
        using \<open>passesFilter d cfg (tag_id tag) = Inr b\<close> True Inr r
        by (simp add: handleDiscovery_resume_def)
      then show ?thesis
        using throttledDispatch_grows [of s2 d cfg now e] c by (simp add: cacheGrows_def)
    qed
  qed
qed

lemma outstanding_append: "outstanding (ts @ us) = outstanding ts @ outstanding us"
  by (induction ts rule: outstanding.induct) simp_all

lemma outstanding_take_drop:
  "k < length ts \<Longrightarrow> ts ! k = Handshake tag \<Longrightarrow>
     outstanding ts = outstanding (take k ts) @ tag_id tag # outstanding (drop (Suc k) ts)"
proof -
  assume a: "k < length ts" and b: "ts ! k = Handshake tag"
  have "ts = take k ts @ ts ! k # drop (Suc k) ts" using a by (simp add: id_take_nth_drop)
  then have "outstanding ts = outstanding (take k ts @ Handshake tag # drop (Suc k) ts)"
    using b by simp
  then show ?thesis by (simp add: outstanding_append)
qed

lemma outstanding_take_drop_Continue:
  "k < length ts \<Longrightarrow> ts ! k = Continue tag \<Longrightarrow>
     outstanding ts = outstanding (take k ts) @ outstanding (drop (Suc k) ts)"
proof -
  assume a: "k < length ts" and b: "ts ! k = Continue tag"
  have "ts = take k ts @ ts ! k # drop (Suc k) ts" using a by (simp add: id_take_nth_drop)
  then have "outstanding ts = outstanding (take k ts @ Continue tag # drop (Suc k) ts)"
    using b by simp
  then show ?thesis by (simp add: outstanding_append)
qed

lemma outstanding_removeTask:
  "outstanding (removeTask k ts) = outstanding (take k ts) @ outstanding (drop (Suc k) ts)"
  by (simp add: removeTask_def outstanding_append)

lemma guarded_grows:
  assumes "handshakesGuarded sys" "cacheGrows (state sys) s'" "outstanding ts' = outstanding (tasks sys)"
  shows "handshakesGuarded (sys\<lparr>state := s', tasks := ts'\<rparr>)"
  using assms by (auto simp: handshakesGuarded_def cacheGrows_def)

lemma guarded_grows_state:
  assumes "handshakesGuarded sys" "cacheGrows (state sys) s'"
  shows "handshakesGuarded (sys\<lparr>state := s'\<rparr>)"
  using assms by (auto simp: handshakesGuarded_def cacheGrows_def)

lemma step_Advertisement_guarded:
  assumes "handshakesGuarded sys"
  shows "handshakesGuarded (step d cfg (Advertisement p) sys)"
proof (cases "onlyIBeacon cfg \<and> \<not> isInstanceOfIBeacon (createTag d cfg p)")
  case True
  then have "step d cfg (Advertisement p) sys = sys\<lparr>state := state sys\<rparr>"
    by (simp add: handleDiscovery_enter_def Let_def)
  then show ?thesis using assms by (simp add: handshakesGuarded_def)
next
  case False
  let ?tag = "createTag d cfg p"
  obtain s' task where en: "applyCompanionAppOverride_enter ?tag (state sys) = (s', task)"
    by (cases "applyCompanionAppOverride_enter ?tag (state sys)")
  have st: "step d cfg (Advertisement p) sys = sys\<lparr>state := s', tasks := tasks sys @ [task]\<rparr>"
    using False en by (auto simp: handleDiscovery_enter_def Let_def)
  show ?thesis
  proof (cases task)
    case (Handshake t)
    from enter_Handshake [OF en [unfolded Handshake]]
    have "t = ?tag" "tag_id ?tag \<notin> dom (companionAppTags (state sys))"
      "companionAppTags s' = (companionAppTags (state sys))(tag_id ?tag \<mapsto> None)"
      by simp_all
    then show ?thesis
      using assms st Handshake
      by (auto simp: handshakesGuarded_def outstanding_append)
  next
    case (Continue t)
    from enter_Continue [OF en [unfolded Continue]] have "s' = state sys" .
    then show ?thesis
      using assms st Continue by (simp add: handshakesGuarded_def outstanding_append)
  qed
qed

lemma step_HandshakeSettled_guarded:
  assumes "handshakesGuarded sys"
  shows "handshakesGuarded (step d cfg (HandshakeSettled k connect race) sys)"
proof (cases "k < length (tasks sys)")
  case False
  then show ?thesis using assms by simp
next
  case True
  show ?thesis
  proof (cases "tasks sys ! k")
    case (Continue t)
    then show ?thesis using assms True by simp
  next
    case (Handshake tag)
    let ?r = "applyCompanionAppOverride_resume (clock sys) tag (discoverCompanionAppId connect race) (state sys)"
    obtain t where t: "snd ?r = Continue t" using resume_task by blast
    have st: "step d cfg (HandshakeSettled k connect race) sys
        = sys\<lparr>state := fst ?r, tasks := removeTask k (tasks sys) @ [Continue t]\<rparr>"
      using True Handshake t by (simp add: case_prod_unfold)
    have o: "outstanding (tasks sys)
        = outstanding (take k (tasks sys)) @ tag_id tag # outstanding (drop (Suc k) (tasks sys))"
      using outstanding_take_drop [OF True Handshake] .
    have o': "outstanding (removeTask k (tasks sys) @ [Continue t])
        = outstanding (take k (tasks sys)) @ outstanding (drop (Suc k) (tasks sys))"
      by (simp add: outstanding_append outstanding_removeTask)
    have d: "distinct (outstanding (take k (tasks sys)) @ outstanding (drop (Suc k) (tasks sys)))"
      and n: "tag_id tag \<notin> set (outstanding (take k (tasks sys)) @ outstanding (drop (Suc k) (tasks sys)))"
      using assms o by (auto simp: handshakesGuarded_def)
    have sub: "set (outstanding (take k (tasks sys)) @ outstanding (drop (Suc k) (tasks sys)))
        \<subseteq> dom (companionAppTags (state sys))"
      using assms o by (auto simp: handshakesGuarded_def)
    have "set (outstanding (take k (tasks sys)) @ outstanding (drop (Suc k) (tasks sys)))
        \<subseteq> dom (companionAppTags (fst ?r))"
    proof
      fix x assume x: "x \<in> set (outstanding (take k (tasks sys)) @ outstanding (drop (Suc k) (tasks sys)))"
      then have "x \<noteq> tag_id tag" using n by blast
      then have "companionAppTags (fst ?r) x = companionAppTags (state sys) x"
        by (rule resume_other)
      moreover have "x \<in> dom (companionAppTags (state sys))" using sub x by blast
      ultimately show "x \<in> dom (companionAppTags (fst ?r))" by (simp add: dom_def)
    qed
    then show ?thesis
      unfolding st handshakesGuarded_def using d o' by simp
  qed
qed

lemma step_Continued_guarded:
  assumes "handshakesGuarded sys"
  shows "handshakesGuarded (step d cfg (Continued k) sys)"
proof (cases "k < length (tasks sys)")
  case False
  then show ?thesis using assms by simp
next
  case True
  show ?thesis
  proof (cases "tasks sys ! k")
    case (Handshake t)
    then show ?thesis using assms True by simp
  next
    case (Continue tag)
    have st: "step d cfg (Continued k) sys
        = sys\<lparr>state := snd (handleDiscovery_resume d cfg (clock sys) tag (state sys)),
              tasks := removeTask k (tasks sys)\<rparr>"
      using True Continue by simp
    have "outstanding (removeTask k (tasks sys)) = outstanding (tasks sys)"
      using outstanding_take_drop_Continue [OF True Continue]
      by (simp add: outstanding_removeTask)
    then show ?thesis
      unfolding st using assms handleDiscovery_resume_grows guarded_grows by blast
  qed
qed

lemma step_guarded:
  assumes "handshakesGuarded sys"
  shows "handshakesGuarded (step d cfg e sys)"
proof (cases e)
  case (Advertisement p)
  then show ?thesis using assms step_Advertisement_guarded by simp
next
  case (HandshakeSettled k c r)
  then show ?thesis using assms step_HandshakeSettled_guarded by simp
next
  case (Continued k)
  then show ?thesis using assms step_Continued_guarded by simp
next
  case (ClusterMessage ev)
  then show ?thesis
    using guarded_grows_state [OF assms handleNewDistance_grows] by simp
next
  case (DenylistTimer k)
  then show ?thesis
    using assms by (simp add: handshakesGuarded_def denylistTimerFires_cache)
next
  case (ThrottleTimer i)
  then show ?thesis
    using guarded_grows_state [OF assms throttleTimerFires_grows] by simp
next
  case (OrphanTimer k)
  then show ?thesis
    using guarded_grows_state [OF assms orphanTimerFires_grows] by simp
next
  case (Elapsed dt)
  then show ?thesis using assms by (simp add: handshakesGuarded_def)
qed

lemma run_guarded: "handshakesGuarded sys \<Longrightarrow> handshakesGuarded (run d cfg es sys)"
  by (induction es arbitrary: sys) (simp_all add: step_guarded)

lemma initial_guarded: "handshakesGuarded initialSystem"
  by (simp add: handshakesGuarded_def initialSystem_def)

lemma exampleConfig_fields:
  "onlyIBeacon exampleConfig = False" "processIBeacon exampleConfig = True"
  "updateFrequency exampleConfig = 2" "maxDistance exampleConfig = Some 5"
  "timeout exampleConfig = 5" "tagOverrides exampleConfig = Map.empty"
  "cfg_majorMask exampleConfig = 65535" "cfg_minorMask exampleConfig = 65535"
  "cfg_batteryMask exampleConfig = 0"
  by (simp_all add: exampleConfig_def)

lemma exampleDeps_fields:
  "calibration exampleDeps = (\<lambda>p. - 59)" "distance exampleDeps = (\<lambda>t. rssi t / measuredPower t)"
  "batteryLevel exampleDeps = (\<lambda>t. None)"
  "kalmanFilter exampleDeps = (\<lambda>rs. if rs = [] then 0 else last rs)"
  "makeId exampleDeps = map (\<lambda>c. if c = CHR '' '' then CHR ''-'' else c)"
  "instanceName exampleDeps = ''kitchen''"
  by (simp_all add: exampleDeps_def)

lemma phone_createTag: "createTag exampleDeps exampleConfig phonePeripheral = phoneTag"
  by (simp add: createTag_def isIBeacon_def phonePeripheral_def phoneTag_def)

lemma example_run_tasks:
  "run exampleDeps exampleConfig [Advertisement phonePeripheral] initialSystem
     = \<lparr>state = initialState\<lparr>companionAppTags := [''aa:bb:cc'' \<mapsto> None]\<rparr>,
        tasks = [Handshake phoneTag], clock = 0\<rparr>"
  by (simp add: handleDiscovery_enter_def phone_createTag applyCompanionAppOverride_enter_def
      startsHandshake_def phoneTag_gate phoneTag_id initialSystem_def initialState_def
      exampleConfig_fields Let_def)

text \<open>
  C9: in every state the event loop can reach from the initial one, whatever the
  interleaving of advertisements, settled handshakes, continuations, cluster messages and
  timers, no identity has more than one outstanding handshake, and every identity with an
  outstanding handshake has an entry in the cache, the entry that was set to null before the
  handshake was awaited and that keeps a second attempt from starting.
\<close>

theorem one_handshake_per_identity:
  "distinct (outstanding (tasks (run d cfg es initialSystem)))
   \<and> set (outstanding (tasks (run d cfg es initialSystem)))
       \<subseteq> dom (companionAppTags (state (run d cfg es initialSystem)))"
  using run_guarded [OF initial_guarded, of d cfg es] by (simp add: handshakesGuarded_def)

theorem one_handshake_per_identity_witness:
  "outstanding (tasks (run exampleDeps exampleConfig
       [Advertisement phonePeripheral, Advertisement phonePeripheral] initialSystem))
     = [''aa:bb:cc'']
   \<and> distinct (outstanding (tasks (run exampleDeps exampleConfig
       [Advertisement phonePeripheral, Advertisement phonePeripheral] initialSystem)))"
proof -
  have "run exampleDeps exampleConfig
       [Advertisement phonePeripheral, Advertisement phonePeripheral] initialSystem
     = step exampleDeps exampleConfig (Advertisement phonePeripheral)
         (run exampleDeps exampleConfig [Advertisement phonePeripheral] initialSystem)"
    by (simp only: run.simps)
  then have "outstanding (tasks (run exampleDeps exampleConfig
       [Advertisement phonePeripheral, Advertisement phonePeripheral] initialSystem))
     = [''aa:bb:cc'']"
    unfolding example_run_tasks
    by (simp add: handleDiscovery_enter_def phone_createTag
        applyCompanionAppOverride_enter_def startsHandshake_def phoneTag_id
        exampleConfig_fields Let_def)
  then show ?thesis
    using one_handshake_per_identity [of exampleDeps exampleConfig
        "[Advertisement phonePeripheral, Advertisement phonePeripheral]"]
    by simp
qed

section \<open>The event loop: life cycle of a cache entry\<close>

lemma notNull_dom: "notNull (m i) \<Longrightarrow> i \<in> dom m"
  by (auto simp: notNull_def split: option.splits)

lemma idle_grows:
  assumes "resolvedAndIdle i sys" "cacheGrows (state sys) s'"
    "set (outstanding ts') \<subseteq> set (outstanding (tasks sys))"
  shows "resolvedAndIdle i (sys\<lparr>state := s', tasks := ts'\<rparr>)"
  using assms by (auto simp: resolvedAndIdle_def cacheGrows_def)

lemma idle_grows_state:
  assumes "resolvedAndIdle i sys" "cacheGrows (state sys) s'"
  shows "resolvedAndIdle i (sys\<lparr>state := s'\<rparr>)"
  using assms by (auto simp: resolvedAndIdle_def cacheGrows_def)

lemma step_Advertisement_idle:
  assumes "resolvedAndIdle i sys"
  shows "resolvedAndIdle i (step d cfg (Advertisement p) sys)"
proof (cases "onlyIBeacon cfg \<and> \<not> isInstanceOfIBeacon (createTag d cfg p)")
  case True
  then have "step d cfg (Advertisement p) sys = sys\<lparr>state := state sys\<rparr>"
    by (simp add: handleDiscovery_enter_def Let_def)
  then show ?thesis using assms by (simp add: resolvedAndIdle_def)
next
  case False
  let ?tag = "createTag d cfg p"
  obtain s' task where en: "applyCompanionAppOverride_enter ?tag (state sys) = (s', task)"
    by (cases "applyCompanionAppOverride_enter ?tag (state sys)")
  have st: "step d cfg (Advertisement p) sys = sys\<lparr>state := s', tasks := tasks sys @ [task]\<rparr>"
    using False en by (auto simp: handleDiscovery_enter_def Let_def)
  have dom: "i \<in> dom (companionAppTags (state sys))"
    using assms notNull_dom [of "companionAppTags (state sys)" i] by (simp add: resolvedAndIdle_def)
  show ?thesis
  proof (cases task)
    case (Handshake t)
    from enter_Handshake [OF en [unfolded Handshake]]
    have "t = ?tag" "tag_id ?tag \<notin> dom (companionAppTags (state sys))"
      "companionAppTags s' = (companionAppTags (state sys))(tag_id ?tag \<mapsto> None)"
      by simp_all
    then show ?thesis
      using assms st Handshake dom
      by (auto simp: resolvedAndIdle_def outstanding_append)
  next
    case (Continue t)
    from enter_Continue [OF en [unfolded Continue]] have "s' = state sys" .
    then show ?thesis
      using assms st Continue by (simp add: resolvedAndIdle_def outstanding_append)
  qed
qed

lemma step_HandshakeSettled_idle:
  assumes "resolvedAndIdle i sys"
  shows "resolvedAndIdle i (step d cfg (HandshakeSettled k connect race) sys)"
proof (cases "k < length (tasks sys)")
  case False
  then show ?thesis using assms by simp
next
  case True
  show ?thesis
  proof (cases "tasks sys ! k")
    case (Continue t)
    then show ?thesis using assms True by simp
  next
    case (Handshake tag)
    let ?r = "applyCompanionAppOverride_resume (clock sys) tag (discoverCompanionAppId connect race) (state sys)"
    obtain t where t: "snd ?r = Continue t" using resume_task by blast
    have st: "step d cfg (HandshakeSettled k connect race) sys
        = sys\<lparr>state := fst ?r, tasks := removeTask k (tasks sys) @ [Continue t]\<rparr>"
      using True Handshake t by (simp add: case_prod_unfold)
    have o: "outstanding (tasks sys)
        = outstanding (take k (tasks sys)) @ tag_id tag # outstanding (drop (Suc k) (tasks sys))"
      using outstanding_take_drop [OF True Handshake] .
    have o': "outstanding (removeTask k (tasks sys) @ [Continue t])
        = outstanding (take k (tasks sys)) @ outstanding (drop (Suc k) (tasks sys))"
      by (simp add: outstanding_append outstanding_removeTask)
    have "i \<noteq> tag_id tag" using assms o by (auto simp: resolvedAndIdle_def)
    then have "companionAppTags (fst ?r) i = companionAppTags (state sys) i"
      by (rule resume_other)
    then show ?thesis
      unfolding st resolvedAndIdle_def using assms o o' by (auto simp: resolvedAndIdle_def)
  qed
qed

lemma step_Continued_idle:
  assumes "resolvedAndIdle i sys"
  shows "resolvedAndIdle i (step d cfg (Continued k) sys)"
proof (cases "k < length (tasks sys)")
  case False
  then show ?thesis using assms by simp
next
  case True
  show ?thesis
  proof (cases "tasks sys ! k")
    case (Handshake t)
    then show ?thesis using assms True by simp
  next
    case (Continue tag)
    have st: "step d cfg (Continued k) sys
        = sys\<lparr>state := snd (handleDiscovery_resume d cfg (clock sys) tag (state sys)),
              tasks := removeTask k (tasks sys)\<rparr>"
      using True Continue by simp
    have "outstanding (removeTask k (tasks sys)) = outstanding (tasks sys)"
      using outstanding_take_drop_Continue [OF True Continue]
      by (simp add: outstanding_removeTask)
    then show ?thesis
      unfolding st using idle_grows [OF assms handleDiscovery_resume_grows] by simp
  qed
qed

lemma step_idle:
  assumes "resolvedAndIdle i sys"
  shows "resolvedAndIdle i (step d cfg e sys)"
proof (cases e)
  case (Advertisement p)
  then show ?thesis using assms step_Advertisement_idle by simp
next
  case (HandshakeSettled k c r)
  then show ?thesis using assms step_HandshakeSettled_idle by simp
next
  case (Continued k)
  then show ?thesis using assms step_Continued_idle by simp
next
  case (ClusterMessage ev)
  then show ?thesis
    using idle_grows_state [OF assms handleNewDistance_grows] by simp
next
  case (DenylistTimer k)
  then show ?thesis
    using assms by (simp add: resolvedAndIdle_def denylistTimerFires_cache)
next
  case (ThrottleTimer j)
  then show ?thesis
    using idle_grows_state [OF assms throttleTimerFires_grows] by simp
next
  case (OrphanTimer k)
  then show ?thesis
    using idle_grows_state [OF assms orphanTimerFires_grows] by simp
next
  case (Elapsed dt)
  then show ?thesis using assms by (simp add: resolvedAndIdle_def)
qed

lemma run_idle: "resolvedAndIdle i sys \<Longrightarrow> resolvedAndIdle i (run d cfg es sys)"
  by (induction es arbitrary: sys) (simp_all add: step_idle)

lemma settled_resolved_idle:
  assumes g: "handshakesGuarded sys"
    and k: "k < length (tasks sys)" and h: "tasks sys ! k = Handshake tag"
    and r: "discoverCompanionAppId connect race = Resolved (Some a)"
  shows "resolvedAndIdle (tag_id tag) (step d cfg (HandshakeSettled k connect race) sys)"
proof -
  let ?r = "applyCompanionAppOverride_resume (clock sys) tag (Resolved (Some a)) (state sys)"
  obtain t where t: "snd ?r = Continue t" using resume_task by blast
  have st: "step d cfg (HandshakeSettled k connect race) sys
      = sys\<lparr>state := fst ?r, tasks := removeTask k (tasks sys) @ [Continue t]\<rparr>"
    using k h t r by (simp add: case_prod_unfold)
  have o: "outstanding (tasks sys)
      = outstanding (take k (tasks sys)) @ tag_id tag # outstanding (drop (Suc k) (tasks sys))"
    using outstanding_take_drop [OF k h] .
  have o': "outstanding (removeTask k (tasks sys) @ [Continue t])
      = outstanding (take k (tasks sys)) @ outstanding (drop (Suc k) (tasks sys))"
    by (simp add: outstanding_append outstanding_removeTask)
  have n: "tag_id tag \<notin> set (outstanding (take k (tasks sys)) @ outstanding (drop (Suc k) (tasks sys)))"
    using g o by (auto simp: handshakesGuarded_def)
  have "notNull (companionAppTags (fst ?r) (tag_id tag))"
    by (simp add: applyCompanionAppOverride_resume_def Let_def handleAppDiscovery_def notNull_def)
  then show ?thesis
    unfolding st resolvedAndIdle_def using n o' by simp
qed

text \<open>
  C2, as stated, fails: when the read of the companion identity fails without a timeout
  after the connection was made, \<^verbatim>\<open>discoverCompanionAppId\<close> catches the error and
  returns null; the pending entry is not removed, and the next advertisement of the
  identity starts no new attempt.
\<close>

theorem read_failure_counterexample:
  "companionAppTags
      (fst (applyCompanionAppOverride_resume 0 phoneTag
             (discoverCompanionAppId (Resolved ()) (ReadSettled (Rejected ''read failed'')))
             (fst (applyCompanionAppOverride_enter phoneTag initialState)))) ''aa:bb:cc'' = Some None
   \<and> \<not> startsHandshake phoneTag
      (fst (applyCompanionAppOverride_resume 0 phoneTag
             (discoverCompanionAppId (Resolved ()) (ReadSettled (Rejected ''read failed'')))
             (fst (applyCompanionAppOverride_enter phoneTag initialState))))
   \<and> snd (applyCompanionAppOverride_enter phoneTag initialState) = Handshake phoneTag"
  by (simp add: applyCompanionAppOverride_enter_def startsHandshake_def phoneTag_gate phoneTag_id
      initialState_def discover_connected applyCompanionAppOverride_resume_def
      handleAppDiscovery_def notNull_def Let_def)

text \<open>
  C2, amended: the cache entry of an identity is created, as pending, by the first
  advertisement that is eligible while the identity is neither cached nor denylisted. It is
  removed whenever the connection of the resolution attempt is rejected, so that, unless
  the rejection was a timeout or the identity is denylisted, the next eligible advertisement
  starts a new attempt. When the attempt fails after the connection (the read is rejected,
  the peer disconnects or the race times out) \<^verbatim>\<open>discoverCompanionAppId\<close> returns null,
  the entry stays in the cache and no new attempt is started. Once an attempt has resolved a
  non-null identity, the entry holds a non-null identity in every later state of the event
  loop.
\<close>

theorem companion_cache_lifecycle:
  "(startsHandshake tag s \<longrightarrow>
       companionAppTags (fst (applyCompanionAppOverride_enter tag s)) (tag_id tag) = Some None
       \<and> snd (applyCompanionAppOverride_enter tag s) = Handshake tag)
   \<and> companionAppTags
        (fst (applyCompanionAppOverride_resume now tag (discoverCompanionAppId (Rejected m) race) s))
        (tag_id tag) = None
   \<and> (m \<noteq> ''timed out'' \<and> tag_id tag \<notin> companionAppDenylist s \<longrightarrow>
        startsHandshake tag
          (fst (applyCompanionAppOverride_resume now tag (discoverCompanionAppId (Rejected m) race) s))
          = companionGate tag)
   \<and> (discoverCompanionAppId (Resolved ()) race = Resolved None \<longrightarrow>
        companionAppTags
          (fst (applyCompanionAppOverride_resume now tag (discoverCompanionAppId (Resolved ()) race) s))
          (tag_id tag) \<noteq> None
        \<and> \<not> startsHandshake tag
          (fst (applyCompanionAppOverride_resume now tag (discoverCompanionAppId (Resolved ()) race) s)))
   \<and> (k < length (tasks (run d cfg es initialSystem))
        \<and> tasks (run d cfg es initialSystem) ! k = Handshake tag
        \<and> discoverCompanionAppId connect race = Resolved (Some a) \<longrightarrow>
        notNull (companionAppTags
          (state (run d cfg es' (step d cfg (HandshakeSettled k connect race) (run d cfg es initialSystem))))
          (tag_id tag)))"
proof -
  have a: "startsHandshake tag s \<longrightarrow>
       companionAppTags (fst (applyCompanionAppOverride_enter tag s)) (tag_id tag) = Some None
       \<and> snd (applyCompanionAppOverride_enter tag s) = Handshake tag"
    by (simp add: enter_pending)
  have b: "companionAppTags
        (fst (applyCompanionAppOverride_resume now tag (discoverCompanionAppId (Rejected m) race) s))
        (tag_id tag) = None"
    by (simp add: resume_rejected_cache)
  have c: "m \<noteq> ''timed out'' \<and> tag_id tag \<notin> companionAppDenylist s \<longrightarrow>
        startsHandshake tag
          (fst (applyCompanionAppOverride_resume now tag (discoverCompanionAppId (Rejected m) race) s))
          = companionGate tag"
    using b by (simp add: startsHandshake_def resume_rejected_other dom_def)
  have d: "discoverCompanionAppId (Resolved ()) race = Resolved None \<longrightarrow>
        companionAppTags
          (fst (applyCompanionAppOverride_resume now tag (discoverCompanionAppId (Resolved ()) race) s))
          (tag_id tag) \<noteq> None
        \<and> \<not> startsHandshake tag
          (fst (applyCompanionAppOverride_resume now tag (discoverCompanionAppId (Resolved ()) race) s))"
    using resume_resolved_cache [of now tag None s] by (auto simp: startsHandshake_def)
  have e: "k < length (tasks (run d cfg es initialSystem))
        \<and> tasks (run d cfg es initialSystem) ! k = Handshake tag
        \<and> discoverCompanionAppId connect race = Resolved (Some a) \<longrightarrow>
        notNull (companionAppTags
          (state (run d cfg es' (step d cfg (HandshakeSettled k connect race) (run d cfg es initialSystem))))
          (tag_id tag))"
  proof (intro impI, elim conjE)
    assume k: "k < length (tasks (run d cfg es initialSystem))"
      and h: "tasks (run d cfg es initialSystem) ! k = Handshake tag"
      and r: "discoverCompanionAppId connect race = Resolved (Some a)"
    have g: "handshakesGuarded (run d cfg es initialSystem)"
      using run_guarded [OF initial_guarded] .
    from run_idle [OF settled_resolved_idle [OF g k h r]]
    show "notNull (companionAppTags
          (state (run d cfg es' (step d cfg (HandshakeSettled k connect race) (run d cfg es initialSystem))))
          (tag_id tag))"
      by (simp add: resolvedAndIdle_def)
  qed
  show ?thesis using a b c d e by blast
qed

theorem companion_cache_lifecycle_witness:
  "startsHandshake phoneTag initialState
   \<and> companionAppTags (fst (applyCompanionAppOverride_enter phoneTag initialState))
        (tag_id phoneTag) = Some None
   \<and> startsHandshake phoneTag
        (fst (applyCompanionAppOverride_resume 0 phoneTag
               (discoverCompanionAppId (Rejected ''refused'') TimedOut)
               (fst (applyCompanionAppOverride_enter phoneTag initialState))))
   \<and> discoverCompanionAppId (Resolved ()) PeerDisconnected = Resolved None
   \<and> \<not> startsHandshake phoneTag
        (fst (applyCompanionAppOverride_resume 0 phoneTag
               (discoverCompanionAppId (Resolved ()) PeerDisconnected)
               (fst (applyCompanionAppOverride_enter phoneTag initialState))))
   \<and> tasks (run exampleDeps exampleConfig [Advertisement phonePeripheral] initialSystem) ! 0
        = Handshake phoneTag
   \<and> notNull (companionAppTags
        (state (run exampleDeps exampleConfig [Advertisement phonePeripheral, DenylistTimer 0]
           (step exampleDeps exampleConfig
              (HandshakeSettled 0 (Resolved ()) (ReadSettled (Resolved (Some ''app-1''))))
              (run exampleDeps exampleConfig [Advertisement phonePeripheral] initialSystem))))
        (tag_id phoneTag))"
proof -
  let ?s1 = "fst (applyCompanionAppOverride_enter phoneTag initialState)"
  let ?es = "[Advertisement phonePeripheral]"
  have h1: "startsHandshake phoneTag initialState"
    by (simp add: startsHandshake_def phoneTag_gate phoneTag_id initialState_def)
  have h2: "''refused'' \<noteq> ''timed out'' \<and> tag_id phoneTag \<notin> companionAppDenylist ?s1"
    using h1 by (simp add: enter_pending initialState_def)
  have h3: "discoverCompanionAppId (Resolved ()) PeerDisconnected = Resolved None"
    by (simp add: discover_connected)
  have h4: "0 < length (tasks (run exampleDeps exampleConfig ?es initialSystem))
      \<and> tasks (run exampleDeps exampleConfig ?es initialSystem) ! 0 = Handshake phoneTag
      \<and> discoverCompanionAppId (Resolved ()) (ReadSettled (Resolved (Some ''app-1'')))
          = Resolved (Some ''app-1'')"
    unfolding example_run_tasks by (simp add: discover_connected)
  have a: "companionAppTags (fst (applyCompanionAppOverride_enter phoneTag initialState))
        (tag_id phoneTag) = Some None"
    using h1 companion_cache_lifecycle [where tag = phoneTag and s = initialState] by blast
  have b: "startsHandshake phoneTag
        (fst (applyCompanionAppOverride_resume 0 phoneTag
               (discoverCompanionAppId (Rejected ''refused'') TimedOut) ?s1))"
    using h2 phoneTag_gate
      companion_cache_lifecycle [where tag = phoneTag and s = ?s1 and m = "''refused''"
        and now = 0 and race = TimedOut]
    by blast
  have c: "\<not> startsHandshake phoneTag
        (fst (applyCompanionAppOverride_resume 0 phoneTag
               (discoverCompanionAppId (Resolved ()) PeerDisconnected) ?s1))"
    using h3
      companion_cache_lifecycle [where tag = phoneTag and s = ?s1 and now = 0
        and race = PeerDisconnected]
    by blast
  have d: "notNull (companionAppTags
        (state (run exampleDeps exampleConfig [Advertisement phonePeripheral, DenylistTimer 0]
           (step exampleDeps exampleConfig
              (HandshakeSettled 0 (Resolved ()) (ReadSettled (Resolved (Some ''app-1''))))
              (run exampleDeps exampleConfig ?es initialSystem))))
        (tag_id phoneTag))"
    using h4
      companion_cache_lifecycle [where tag = phoneTag and k = 0 and d = exampleDeps
        and cfg = exampleConfig and es = ?es and connect = "Resolved ()"
        and race = "ReadSettled (Resolved (Some ''app-1''))" and a = "''app-1''"
        and es' = "[Advertisement phonePeripheral, DenylistTimer 0]"]
    by blast
  from h1 a b h3 c h4 d show ?thesis by blast
qed

section \<open>The event loop: the range flag of published events\<close>

lemma newDistanceEvent_ofTag: "eventOfTag d cfg tag (newDistanceEvent d cfg tag)"
  by (simp add: eventOfTag_def newDistanceEvent_def exceeds_def)

lemma filteredEvent_ofTag:
  assumes "filteredEvent d cfg tag s = Inr (e, s')"
  shows "filteredTag d cfg tag s
           (case applyOverrides cfg tag of
              Inr t1 \<Rightarrow> t1\<lparr>rssi := kalmanFilter d (readings s (tag_id t1) @ [rssi t1])\<rparr>
            | Inl x \<Rightarrow> tag)
       \<and> eventOfTag d cfg
           (case applyOverrides cfg tag of
              Inr t1 \<Rightarrow> t1\<lparr>rssi := kalmanFilter d (readings s (tag_id t1) @ [rssi t1])\<rparr>
            | Inl x \<Rightarrow> tag) e"
proof (cases "applyOverrides cfg tag")
  case (Inl x)
  then show ?thesis using assms by (simp add: filteredEvent_def)
next
  case (Inr t1)
  then have "e = newDistanceEvent d cfg
      (t1\<lparr>rssi := kalmanFilter d (readings s (tag_id t1) @ [rssi t1])\<rparr>)"
    using assms by (simp add: filteredEvent_def filterRssi_def Let_def)
  then show ?thesis using Inr by (simp add: filteredTag_def newDistanceEvent_ofTag)
qed

lemma filteredEvent_state:
  assumes "filteredEvent d cfg tag s = Inr (e, s')"
  shows "effects s' = effects s" "tagUpdaters s' = tagUpdaters s"
    "tagUpdatersPrototype s' = tagUpdatersPrototype s" "orphanedUpdaters s' = orphanedUpdaters s"
  using assms
  by (auto simp: filteredEvent_def filterRssi_def Let_def split: sum.splits)

lemma argumentOfTag_simps:
  "argumentOfTag d cfg None"
  "argumentOfTag d cfg (Some (IdArgument i))"
  "argumentOfTag d cfg (Some (EventArgument e)) = (\<exists>tag. eventOfTag d cfg tag e)"
  by (simp_all add: argumentOfTag_def)

lemma eventsOfTags_fields:
  assumes "eventsOfTags d cfg s"
    "\<And>e. Published e \<in> set (effects s') \<Longrightarrow> Published e \<in> set (effects s)"
    "tagUpdaters s' = tagUpdaters s" "tagUpdatersPrototype s' = tagUpdatersPrototype s"
    "orphanedUpdaters s' = orphanedUpdaters s"
  shows "eventsOfTags d cfg s'"
  using assms unfolding eventsOfTags_def by simp

lemma createRoomPresenceSensor_registry:
  "tagUpdatersPrototype (createRoomPresenceSensor d cfg sid dev n hb s) = tagUpdatersPrototype s"
  "orphanedUpdaters (createRoomPresenceSensor d cfg sid dev n hb s) = orphanedUpdaters s"
  by (simp_all add: createRoomPresenceSensor_def Let_def add_def createDeviceTracker_def
      createBatterySensor_def)

lemma handleNewDistance_registryFields:
  "tagUpdatersPrototype (handleNewDistance d cfg ev s) = tagUpdatersPrototype s"
  "orphanedUpdaters (handleNewDistance d cfg ev s) = orphanedUpdaters s"
  by (simp_all add: handleNewDistance_def Let_def createRoomPresenceSensor_registry
      handleAppDiscovery_def)

lemma handleNewDistance_published:
  "Published e \<in> set (effects (handleNewDistance d cfg ev s)) = (Published e \<in> set (effects s))"
  by (auto simp: handleNewDistance_effects)

lemma handleNewDistance_ofTags:
  "eventsOfTags d cfg s \<Longrightarrow> eventsOfTags d cfg (handleNewDistance d cfg ev s)"
  by (erule eventsOfTags_fields)
    (simp_all add: handleNewDistance_published handleNewDistance_updaters
      handleNewDistance_registryFields)

lemma handleNewDistanceOfId_ofTags:
  "eventsOfTags d cfg s \<Longrightarrow> eventsOfTags d cfg (handleNewDistanceOfId d cfg s)"
  by (erule eventsOfTags_fields)
    (auto simp: handleNewDistanceOfId_def Let_def createRoomPresenceSensor_effects
      createRoomPresenceSensor_updaters createRoomPresenceSensor_registry split: if_splits)

lemma published_ofTags:
  assumes "eventsOfTags d cfg s" "eventOfTag d cfg tag e"
  shows "eventsOfTags d cfg (s\<lparr>effects := effects s @ [Published e]\<rparr>)"
  using assms unfolding eventsOfTags_def by auto

lemma publishedId_ofTags:
  assumes "eventsOfTags d cfg s"
  shows "eventsOfTags d cfg (s\<lparr>effects := effects s @ [PublishedId i]\<rparr>)"
  using assms unfolding eventsOfTags_def by auto

lemma throttledFunction_ofTags:
  assumes "eventsOfTags d cfg s" "argumentOfTag d cfg (Some a)"
  shows "eventsOfTags d cfg (throttledFunction d cfg a s)"
proof (cases a)
  case (EventArgument e)
  then obtain tag where "eventOfTag d cfg tag e"
    using assms(2) by (auto simp: argumentOfTag_simps)
  then show ?thesis
    using published_ofTags [OF handleNewDistance_ofTags [OF assms(1), of e], of tag e]
      EventArgument
    by (simp add: dispatch_def Let_def)
next
  case (IdArgument i)
  then show ?thesis
    using publishedId_ofTags [OF handleNewDistanceOfId_ofTags [OF assms(1)], of i]
    by (simp add: Let_def)
qed

lemma invoked_ofTags:
  assumes "eventsOfTags d cfg s" "argumentOfTag d cfg call"
  shows "eventsOfTags d cfg (invoked d cfg call s)"
  using assms by (cases call) (simp_all add: invoked_def throttledFunction_ofTags)

lemma throttleOfTags_update:
  "throttleOfTags d cfg (th\<lparr>timerId := x\<rparr>) = throttleOfTags d cfg th"
  "throttleOfTags d cfg (th\<lparr>lastInvokeTime := y\<rparr>) = throttleOfTags d cfg th"
  "throttleOfTags d cfg (th\<lparr>lastCallTime := z\<rparr>) = throttleOfTags d cfg th"
  "throttleOfTags d cfg (th\<lparr>lastArgs := a\<rparr>) = argumentOfTag d cfg a"
  by (simp_all add: throttleOfTags_def)

lemma invokeFunc_ofTags:
  "throttleOfTags d cfg th \<Longrightarrow>
     throttleOfTags d cfg (fst (invokeFunc th t)) \<and> argumentOfTag d cfg (snd (invokeFunc th t))"
  by (simp add: invokeFunc_def throttleOfTags_def argumentOfTag_simps)

lemma debounced_ofTags:
  assumes "throttleOfTags d cfg th" "argumentOfTag d cfg (Some a)"
  shows "throttleOfTags d cfg (fst (debounced th t a))
    \<and> argumentOfTag d cfg (snd (debounced th t a))"
  using assms
  by (simp add: debounced_def Let_def leadingEdge_def invokeFunc_ofTags throttleOfTags_update
      argumentOfTag_simps)

lemma timerExpired_ofTags:
  assumes "throttleOfTags d cfg th"
  shows "throttleOfTags d cfg (fst (timerExpired th t))
    \<and> argumentOfTag d cfg (snd (timerExpired th t))"
  using assms
  by (simp add: timerExpired_def trailingEdge_def Let_def invokeFunc_ofTags throttleOfTags_update
      argumentOfTag_simps)

lemma newThrottled_ofTags: "throttleOfTags d cfg (newThrottled w)"
  by (simp add: newThrottled_def throttleOfTags_def argumentOfTag_simps)

lemma updaters_ofTags:
  "eventsOfTags d cfg s \<Longrightarrow> throttleOfTags d cfg th \<Longrightarrow>
     eventsOfTags d cfg (s\<lparr>tagUpdaters := (tagUpdaters s)(i \<mapsto> th)\<rparr>)"
  by (simp add: eventsOfTags_def)

lemma lookupUpdater_ofTags:
  "eventsOfTags d cfg s \<Longrightarrow> lookupUpdater i s = Some th \<Longrightarrow> throttleOfTags d cfg th"
  by (auto simp: eventsOfTags_def lookupUpdater_def split: if_splits)

lemma storeUpdater_ofTags:
  "eventsOfTags d cfg s \<Longrightarrow> throttleOfTags d cfg th \<Longrightarrow> eventsOfTags d cfg (storeUpdater i th s)"
  by (auto simp: eventsOfTags_def storeUpdater_def split: option.splits)

lemma updateUpdater_ofTags:
  "eventsOfTags d cfg s \<Longrightarrow> throttleOfTags d cfg th \<Longrightarrow> eventsOfTags d cfg (updateUpdater i th s)"
  by (auto simp: eventsOfTags_def updateUpdater_def)

lemma hasOwnProperty_ofTags:
  assumes "eventsOfTags d cfg s"
  shows "eventsOfTags d cfg (snd (hasOwnProperty d cfg now i s))"
proof (cases "tagUpdaters s ''hasOwnProperty''")
  case None
  then show ?thesis using assms by (simp add: hasOwnProperty_def)
next
  case (Some shadow)
  then have sh: "throttleOfTags d cfg shadow" using assms by (auto simp: eventsOfTags_def)
  obtain shadow' call where dc: "debounced shadow now (IdArgument i) = (shadow', call)"
    by (cases "debounced shadow now (IdArgument i)")
  have f: "throttleOfTags d cfg shadow'" "argumentOfTag d cfg call"
    using debounced_ofTags [OF sh, of "IdArgument i" now] dc by (simp_all add: argumentOfTag_simps)
  have "snd (hasOwnProperty d cfg now i s)
      = invoked d cfg call (s\<lparr>tagUpdaters := (tagUpdaters s)(''hasOwnProperty'' \<mapsto> shadow')\<rparr>)"
    using Some dc by (simp add: hasOwnProperty_def)
  then show ?thesis
    using invoked_ofTags [OF updaters_ofTags [OF assms f(1)] f(2)] by simp
qed

lemma throttledDispatch_ofTags:
  assumes "eventsOfTags d cfg s" "eventOfTag d cfg tag e"
  shows "eventsOfTags d cfg (snd (throttledDispatch d cfg now e s))"
proof -
  obtain present s1 where h: "hasOwnProperty d cfg now (tagId e) s = (present, s1)"
    by (cases "hasOwnProperty d cfg now (tagId e) s")
  define s2 where "s2 = (if present then s1
      else storeUpdater (tagId e) (newThrottled (updateFrequency cfg * 1000)) s1)"
  have s1: "eventsOfTags d cfg s1"
    using hasOwnProperty_ofTags [OF assms(1), of now "tagId e"] h by simp
  then have s2: "eventsOfTags d cfg s2"
    by (simp add: s2_def storeUpdater_ofTags newThrottled_ofTags)
  show ?thesis
  proof (cases "\<not> present \<and> assignmentThrows (tagId e) s1")
    case True
    then have "snd (throttledDispatch d cfg now e s) = s1"
      using h by (simp add: throttledDispatch_def Let_def)
    then show ?thesis using s1 by simp
  next
    case False
    show ?thesis
    proof (cases "lookupUpdater (tagId e) s2")
      case None
      then have "snd (throttledDispatch d cfg now e s) = s2"
        using h False by (auto simp: throttledDispatch_def s2_def Let_def)
      then show ?thesis using s2 by simp
    next
      case (Some th)
      have th: "throttleOfTags d cfg th" using lookupUpdater_ofTags [OF s2 Some] .
      obtain th' call where dc: "debounced th now (EventArgument e) = (th', call)"
        by (cases "debounced th now (EventArgument e)")
      have a: "argumentOfTag d cfg (Some (EventArgument e))"
        using assms(2) by (auto simp: argumentOfTag_simps)
      have f: "throttleOfTags d cfg th'" "argumentOfTag d cfg call"
        using debounced_ofTags [OF th a, of now] dc by simp_all
      have "snd (throttledDispatch d cfg now e s)
          = invoked d cfg call (updateUpdater (tagId e) th' s2)"
        using h False Some dc by (auto simp: throttledDispatch_def s2_def Let_def)
      then show ?thesis
        using invoked_ofTags [OF updateUpdater_ofTags [OF s2 f(1)] f(2)] by simp
    qed
  qed
qed

lemma throttleTimerFires_ofTags:
  assumes "eventsOfTags d cfg s"
  shows "eventsOfTags d cfg (throttleTimerFires d cfg now i s)"
proof (cases "lookupUpdater i s")
  case None
  then show ?thesis using assms by (simp add: throttleTimerFires_def)
next
  case (Some th)
  have th: "throttleOfTags d cfg th" using lookupUpdater_ofTags [OF assms Some] .
  show ?thesis
  proof (cases "timerId th")
    case None
    then show ?thesis using assms Some by (simp add: throttleTimerFires_def)
  next
    case (Some due)
    show ?thesis
    proof (cases "now < due")
      case True
      then show ?thesis
        using assms Some \<open>lookupUpdater i s = Some th\<close> by (simp add: throttleTimerFires_def)
    next
      case False
      obtain th' call where te: "timerExpired th now = (th', call)"
        by (cases "timerExpired th now")
      have f: "throttleOfTags d cfg th'" "argumentOfTag d cfg call"
        using timerExpired_ofTags [OF th, of now] te by simp_all
      have "throttleTimerFires d cfg now i s = invoked d cfg call (updateUpdater i th' s)"
        using False Some \<open>lookupUpdater i s = Some th\<close> te by (simp add: throttleTimerFires_def)
      then show ?thesis
        using invoked_ofTags [OF updateUpdater_ofTags [OF assms f(1)] f(2)] by simp
    qed
  qed
qed

lemma orphans_ofTags:
  assumes "eventsOfTags d cfg s" "throttleOfTags d cfg th"
  shows "eventsOfTags d cfg (s\<lparr>orphanedUpdaters := (orphanedUpdaters s)[k := th]\<rparr>)"
proof -
  have "set ((orphanedUpdaters s)[k := th]) \<subseteq> insert th (set (orphanedUpdaters s))"
    by (rule set_update_subset_insert)
  then show ?thesis using assms unfolding eventsOfTags_def by auto
qed

lemma orphanTimerFires_ofTags:
  assumes "eventsOfTags d cfg s"
  shows "eventsOfTags d cfg (orphanTimerFires d cfg now k s)"
proof (cases "k < length (orphanedUpdaters s)")
  case False
  then show ?thesis using assms by (simp add: orphanTimerFires_def)
next
  case True
  let ?th = "orphanedUpdaters s ! k"
  have th: "throttleOfTags d cfg ?th"
    using assms True by (simp add: eventsOfTags_def)
  show ?thesis
  proof (cases "timerId ?th")
    case None
    then show ?thesis using assms True by (simp add: orphanTimerFires_def)
  next
    case (Some due)
    show ?thesis
    proof (cases "now < due")
      case True
      then show ?thesis
        using assms Some \<open>k < length (orphanedUpdaters s)\<close> by (simp add: orphanTimerFires_def)
    next
      case False
      obtain th' call where te: "timerExpired ?th now = (th', call)"
        by (cases "timerExpired ?th now")
      have f: "throttleOfTags d cfg th'" "argumentOfTag d cfg call"
        using timerExpired_ofTags [OF th, of now] te by simp_all
      have "orphanTimerFires d cfg now k s
          = invoked d cfg call (s\<lparr>orphanedUpdaters := (orphanedUpdaters s)[k := th']\<rparr>)"
        using False Some \<open>k < length (orphanedUpdaters s)\<close> te
        by (simp add: orphanTimerFires_def)
      then show ?thesis
        using invoked_ofTags [OF orphans_ofTags [OF assms f(1)] f(2)] by simp
    qed
  qed
qed

lemma handleDiscovery_resume_dispatches:
  assumes "passesFilter d cfg (tag_id tag) = Inr True"
    "filteredEvent d cfg tag (s\<lparr>seenIds := insert (tag_id tag) (seenIds s)\<rparr>) = Inr (e, s')"
  shows "handleDiscovery_resume d cfg now tag s = throttledDispatch d cfg now e s'"
  using assms by (simp add: handleDiscovery_resume_def)

lemma handleDiscovery_resume_ofTags:
  assumes "eventsOfTags d cfg s"
  shows "eventsOfTags d cfg (snd (handleDiscovery_resume d cfg now tag s))"
proof (cases "passesFilter d cfg (tag_id tag)")
  case (Inl e)
  then show ?thesis using assms by (simp add: handleDiscovery_resume_def eventsOfTags_def)
next
  case (Inr b)
  show ?thesis
  proof (cases b)
    case False
    with Inr show ?thesis using assms by (simp add: handleDiscovery_resume_def eventsOfTags_def)
  next
    case True
    let ?s1 = "s\<lparr>seenIds := insert (tag_id tag) (seenIds s)\<rparr>"
    have s1: "eventsOfTags d cfg ?s1" using assms by (simp add: eventsOfTags_def)
    show ?thesis
    proof (cases "filteredEvent d cfg tag ?s1")
      case (Inl e)
      then show ?thesis
        using \<open>passesFilter d cfg (tag_id tag) = Inr b\<close> True s1
        by (simp add: handleDiscovery_resume_def)
    next
      case (Inr r)
      obtain e s2 where r: "r = (e, s2)" by (cases r)
      have fe: "filteredEvent d cfg tag ?s1 = Inr (e, s2)" using Inr r by simp
      obtain t where e: "eventOfTag d cfg t e" using filteredEvent_ofTag [OF fe] by blast
      have s2: "eventsOfTags d cfg s2"
        using s1 filteredEvent_state [OF fe] by (simp add: eventsOfTags_def)
      have "snd (handleDiscovery_resume d cfg now tag s) = snd (throttledDispatch d cfg now e s2)"
        using \<open>passesFilter d cfg (tag_id tag) = Inr b\<close> True fe
        by (simp add: handleDiscovery_resume_def)
      then show ?thesis using throttledDispatch_ofTags [OF s2 e] by simp
    qed
  qed
qed

lemma enter_ofTags:
  "eventsOfTags d cfg s \<Longrightarrow> eventsOfTags d cfg (fst (applyCompanionAppOverride_enter tag s))"
  by (simp add: applyCompanionAppOverride_enter_def eventsOfTags_def)

lemma resume_ofTags:
  "eventsOfTags d cfg s \<Longrightarrow> eventsOfTags d cfg (fst (applyCompanionAppOverride_resume now tag r s))"
  by (cases r) (simp_all add: applyCompanionAppOverride_resume_def eventsOfTags_def Let_def
      handleAppDiscovery_def)

lemma denylistTimerFires_ofTags:
  "eventsOfTags d cfg s \<Longrightarrow> eventsOfTags d cfg (denylistTimerFires k s)"
  by (simp add: denylistTimerFires_def eventsOfTags_def)

lemma handleDiscovery_enter_ofTags:
  "eventsOfTags d cfg s \<Longrightarrow> eventsOfTags d cfg (fst (handleDiscovery_enter d cfg p s))"
  using enter_ofTags [of d cfg s "createTag d cfg p"]
  by (simp add: handleDiscovery_enter_def Let_def case_prod_unfold)

lemma step_ofTags:
  assumes "eventsOfTags d cfg (state sys)"
  shows "eventsOfTags d cfg (state (step d cfg e sys))"
proof (cases e)
  case (Advertisement p)
  then show ?thesis
    using handleDiscovery_enter_ofTags [OF assms, of p]
    by (auto split: prod.splits option.splits)
next
  case (HandshakeSettled k c r)
  then show ?thesis
    using assms resume_ofTags [OF assms]
    by (auto simp: case_prod_unfold Let_def split: Task.splits)
next
  case (Continued k)
  then show ?thesis
    using assms handleDiscovery_resume_ofTags [OF assms]
    by (auto split: Task.splits)
next
  case (ClusterMessage ev)
  then show ?thesis using handleNewDistance_ofTags [OF assms] by simp
next
  case (DenylistTimer k)
  then show ?thesis using assms denylistTimerFires_ofTags [OF assms] by simp
next
  case (ThrottleTimer i)
  then show ?thesis using throttleTimerFires_ofTags [OF assms] by simp
next
  case (OrphanTimer k)
  then show ?thesis using orphanTimerFires_ofTags [OF assms] by simp
next
  case (Elapsed dt)
  then show ?thesis using assms by simp
qed

lemma run_ofTags:
  "eventsOfTags d cfg (state sys) \<Longrightarrow> eventsOfTags d cfg (state (run d cfg es sys))"
  by (induction es arbitrary: sys) (simp_all add: step_ofTags)

lemma initial_ofTags: "eventsOfTags d cfg (state initialSystem)"
  by (simp add: eventsOfTags_def initialSystem_def initialState_def)

lemma exampleConfig_limit:
  "onlyIBeacon (exampleConfig\<lparr>maxDistance := limit\<rparr>) = False"
  "processIBeacon (exampleConfig\<lparr>maxDistance := limit\<rparr>) = True"
  "updateFrequency (exampleConfig\<lparr>maxDistance := limit\<rparr>) = 2"
  "maxDistance (exampleConfig\<lparr>maxDistance := limit\<rparr>) = limit"
  "timeout (exampleConfig\<lparr>maxDistance := limit\<rparr>) = 5"
  "tagOverrides (exampleConfig\<lparr>maxDistance := limit\<rparr>) = Map.empty"
  "cfg_majorMask (exampleConfig\<lparr>maxDistance := limit\<rparr>) = 65535"
  "cfg_minorMask (exampleConfig\<lparr>maxDistance := limit\<rparr>) = 65535"
  "cfg_batteryMask (exampleConfig\<lparr>maxDistance := limit\<rparr>) = 0"
  by (simp_all add: exampleConfig_def)

lemma beacon_createTag:
  "createTag exampleDeps (exampleConfig\<lparr>maxDistance := limit\<rparr>) beaconPeripheral = beaconTag"
  using beaconPeripheral_layout
  by (simp add: createTag_def isIBeacon_layout exampleConfig_limit beaconTag_def)

lemma beaconTag_fields:
  "tag_id beaconTag = ''aa:bb:cc''" "tag_name beaconTag = ''beacon''" "rssi beaconTag = - 70"
  "measuredPower beaconTag = - 59" "isApp beaconTag = False"
  "peripheral_id (peripheral beaconTag) = ''aa:bb:cc''" "connectable (peripheral beaconTag) = False"
  "isInstanceOfIBeacon beaconTag"
  by (simp_all add: beaconTag_def newIBeacon_def newTag_def beaconPeripheral_def
      exampleDeps_fields isInstanceOfIBeacon_def)

lemma example_passes:
  "passesFilter exampleDeps (exampleConfig\<lparr>maxDistance := limit\<rparr>) ''aa:bb:cc'' = Inr True"
  by (simp add: passesFilter_def isOnAllowlist_def isOnDenylist_def exampleConfig_def orEmpty_def
      toLowerCase_example isAllowlistEnabled_def isDenylistEnabled_def lengthPositive_def)

lemma example_advertisement:
  "step exampleDeps (exampleConfig\<lparr>maxDistance := limit\<rparr>) (Advertisement beaconPeripheral)
      initialSystem
     = \<lparr>state = initialState, tasks = [Continue beaconTag], clock = 0\<rparr>"
  by (simp add: handleDiscovery_enter_def beacon_createTag
      applyCompanionAppOverride_enter_def startsHandshake_def companionGate_def
      beaconTag_fields applyCachedId_def initialSystem_def initialState_def Let_def
      exampleConfig_limit)

lemma example_overrides:
  "applyOverrides (exampleConfig\<lparr>maxDistance := limit\<rparr>) beaconTag = Inr beaconTag"
  by (simp add: applyOverrides_def exampleConfig_limit)

lemma example_event:
  "filteredEvent exampleDeps (exampleConfig\<lparr>maxDistance := limit\<rparr>) beaconTag s
     = Inr (beaconEvent (exceeds (70 / 59) limit),
            s\<lparr>readings := (readings s)(''aa:bb:cc'' := readings s ''aa:bb:cc'' @ [- 70])\<rparr>)"
  by (simp add: filteredEvent_def example_overrides filterRssi_def newDistanceEvent_def
      exampleConfig_limit exampleDeps_fields beaconTag_fields beaconEvent_def Let_def)

lemma example_dispatch:
  "throttledDispatch d cfg now (beaconEvent far) (initialState\<lparr>seenIds := a, readings := b\<rparr>)
     = (None, snd (throttledDispatch d cfg now (beaconEvent far)
         (initialState\<lparr>seenIds := a, readings := b\<rparr>)))
   \<and> Published (beaconEvent far) \<in> set (effects (snd (throttledDispatch d cfg now (beaconEvent far)
      (initialState\<lparr>seenIds := a, readings := b\<rparr>))))"
  by (simp add: throttledDispatch_def hasOwnProperty_def storeUpdater_def lookupUpdater_def
      updateUpdater_def assignmentThrows_def debounced_def shouldInvoke_def leadingEdge_def
      invokeFunc_def invoked_def dispatch_def newThrottled_def Let_def initialState_def
      beaconEvent_def)

lemma example_run_published:
  "Published (beaconEvent (exceeds (70 / 59) limit)) \<in> set (effects (state
      (run exampleDeps (exampleConfig\<lparr>maxDistance := limit\<rparr>)
         [Advertisement beaconPeripheral, Continued 0] initialSystem)))"
proof -
  have "run exampleDeps (exampleConfig\<lparr>maxDistance := limit\<rparr>)
          [Advertisement beaconPeripheral, Continued 0] initialSystem
      = step exampleDeps (exampleConfig\<lparr>maxDistance := limit\<rparr>) (Continued 0)
          \<lparr>state = initialState, tasks = [Continue beaconTag], clock = 0\<rparr>"
    by (simp only: run.simps example_advertisement)
  then show ?thesis
    using example_dispatch [where far = "exceeds (70 / 59) limit" and d = exampleDeps
        and cfg = "exampleConfig\<lparr>maxDistance := limit\<rparr>" and now = 0]
    by (simp add: handleDiscovery_resume_def beaconTag_fields example_passes example_event)
qed

lemma example_filteredTag:
  "filteredTag exampleDeps (exampleConfig\<lparr>maxDistance := limit\<rparr>) beaconTag initialState t
     = (t = beaconTag)"
  by (auto simp: filteredTag_def example_overrides beaconTag_fields exampleDeps_fields
      initialState_def)

lemma example_distance: "distance exampleDeps beaconTag = 70 / 59"
  by (simp add: exampleDeps_fields beaconTag_fields)

text \<open>
  C10: the event that \<^verbatim>\<open>handleDiscovery\<close> builds for a tag that passed the filter is the
  event of that tag after the overrides and the smoothing of its signal strength: it
  carries the distance derived from that tag, and its \<open>outOfRange\<close> flag is true exactly
  when that distance is strictly greater than the configured \<open>maxDistance\<close> (false when
  none is configured, and false when the distance equals it). That event is the one the
  throttled function is called with, and every event that any run of the event loop
  publishes is such an event of a tag.
\<close>

theorem published_outOfRange:
  "(filteredEvent d cfg tag s = Inr (ev, s') \<longrightarrow>
      (\<exists>t. filteredTag d cfg tag s t \<and> eventOfTag d cfg t ev
         \<and> ev_distance ev = distance d t
         \<and> outOfRange ev = (case maxDistance cfg of None \<Rightarrow> False | Some m \<Rightarrow> distance d t > m)
         \<and> (maxDistance cfg = Some (distance d t) \<longrightarrow> \<not> outOfRange ev)))
   \<and> (passesFilter d cfg (tag_id tag) = Inr True
        \<and> filteredEvent d cfg tag (s\<lparr>seenIds := insert (tag_id tag) (seenIds s)\<rparr>) = Inr (ev, s')
      \<longrightarrow> handleDiscovery_resume d cfg now tag s = throttledDispatch d cfg now ev s')
   \<and> (Published e \<in> set (effects (state (run d cfg es initialSystem))) \<longrightarrow>
      (\<exists>t. eventOfTag d cfg t e
         \<and> ev_distance e = distance d t
         \<and> outOfRange e = (case maxDistance cfg of None \<Rightarrow> False | Some m \<Rightarrow> distance d t > m)
         \<and> (maxDistance cfg = Some (distance d t) \<longrightarrow> \<not> outOfRange e)))"
proof (intro conjI impI)
  assume fe: "filteredEvent d cfg tag s = Inr (ev, s')"
  from filteredEvent_ofTag [OF fe] obtain t
    where t: "filteredTag d cfg tag s t" "eventOfTag d cfg t ev" by blast
  then show "\<exists>t. filteredTag d cfg tag s t \<and> eventOfTag d cfg t ev
         \<and> ev_distance ev = distance d t
         \<and> outOfRange ev = (case maxDistance cfg of None \<Rightarrow> False | Some m \<Rightarrow> distance d t > m)
         \<and> (maxDistance cfg = Some (distance d t) \<longrightarrow> \<not> outOfRange ev)"
    by (auto simp: eventOfTag_def)
next
  assume "passesFilter d cfg (tag_id tag) = Inr True
    \<and> filteredEvent d cfg tag (s\<lparr>seenIds := insert (tag_id tag) (seenIds s)\<rparr>) = Inr (ev, s')"
  then show "handleDiscovery_resume d cfg now tag s = throttledDispatch d cfg now ev s'"
    by (simp add: handleDiscovery_resume_dispatches)
next
  assume p: "Published e \<in> set (effects (state (run d cfg es initialSystem)))"
  have "eventsOfTags d cfg (state (run d cfg es initialSystem))"
    by (rule run_ofTags [OF initial_ofTags])
  with p obtain t where t: "eventOfTag d cfg t e" by (auto simp: eventsOfTags_def)
  then show "\<exists>t. eventOfTag d cfg t e
         \<and> ev_distance e = distance d t
         \<and> outOfRange e = (case maxDistance cfg of None \<Rightarrow> False | Some m \<Rightarrow> distance d t > m)
         \<and> (maxDistance cfg = Some (distance d t) \<longrightarrow> \<not> outOfRange e)"
    by (auto simp: eventOfTag_def)
qed

theorem published_outOfRange_witness:
  "filteredEvent exampleDeps (exampleConfig\<lparr>maxDistance := Some (70 / 59)\<rparr>) beaconTag initialState
     = Inr (beaconEvent False,
            initialState\<lparr>readings := (readings initialState)(''aa:bb:cc'' := [- 70])\<rparr>)
   \<and> (\<exists>t. filteredTag exampleDeps (exampleConfig\<lparr>maxDistance := Some (70 / 59)\<rparr>) beaconTag
              initialState t
         \<and> eventOfTag exampleDeps (exampleConfig\<lparr>maxDistance := Some (70 / 59)\<rparr>) t
              (beaconEvent False)
         \<and> maxDistance (exampleConfig\<lparr>maxDistance := Some (70 / 59)\<rparr>)
              = Some (distance exampleDeps t)
         \<and> \<not> outOfRange (beaconEvent False))
   \<and> passesFilter exampleDeps (exampleConfig\<lparr>maxDistance := Some 1\<rparr>) (tag_id beaconTag) = Inr True
   \<and> filteredEvent exampleDeps (exampleConfig\<lparr>maxDistance := Some 1\<rparr>) beaconTag
        (initialState\<lparr>seenIds := insert (tag_id beaconTag) (seenIds initialState)\<rparr>)
     = Inr (beaconEvent True,
            initialState\<lparr>seenIds := {''aa:bb:cc''},
                         readings := (readings initialState)(''aa:bb:cc'' := [- 70])\<rparr>)
   \<and> handleDiscovery_resume exampleDeps (exampleConfig\<lparr>maxDistance := Some 1\<rparr>) 0 beaconTag
        initialState
     = throttledDispatch exampleDeps (exampleConfig\<lparr>maxDistance := Some 1\<rparr>) 0
         (beaconEvent True)
         (initialState\<lparr>seenIds := {''aa:bb:cc''},
                       readings := (readings initialState)(''aa:bb:cc'' := [- 70])\<rparr>)
   \<and> Published (beaconEvent True) \<in> set (effects (state
        (run exampleDeps (exampleConfig\<lparr>maxDistance := Some 1\<rparr>)
           [Advertisement beaconPeripheral, Continued 0] initialSystem)))
   \<and> (\<exists>t. eventOfTag exampleDeps (exampleConfig\<lparr>maxDistance := Some 1\<rparr>) t (beaconEvent True)
         \<and> ev_distance (beaconEvent True) = distance exampleDeps t
         \<and> outOfRange (beaconEvent True) = (distance exampleDeps t > 1))"
proof -
  let ?near = "exampleConfig\<lparr>maxDistance := Some (70 / 59)\<rparr>"
  let ?far = "exampleConfig\<lparr>maxDistance := Some 1\<rparr>"
  let ?s1 = "initialState\<lparr>readings := (readings initialState)(''aa:bb:cc'' := [- 70])\<rparr>"
  let ?s2 = "initialState\<lparr>seenIds := {''aa:bb:cc''},
      readings := (readings initialState)(''aa:bb:cc'' := [- 70])\<rparr>"
  have fe: "filteredEvent exampleDeps ?near beaconTag initialState = Inr (beaconEvent False, ?s1)"
    by (simp add: example_event exceeds_def initialState_def)
  have pf: "passesFilter exampleDeps ?far (tag_id beaconTag) = Inr True"
    by (simp add: beaconTag_fields example_passes)
  have fe2: "filteredEvent exampleDeps ?far beaconTag
      (initialState\<lparr>seenIds := insert (tag_id beaconTag) (seenIds initialState)\<rparr>)
     = Inr (beaconEvent True, ?s2)"
    by (simp add: example_event exceeds_def initialState_def beaconTag_fields)
  have pub: "Published (beaconEvent True) \<in> set (effects (state
        (run exampleDeps ?far [Advertisement beaconPeripheral, Continued 0] initialSystem)))"
    using example_run_published [of "Some 1"] by (simp add: exceeds_def)
  have a: "\<exists>t. filteredTag exampleDeps ?near beaconTag initialState t
         \<and> eventOfTag exampleDeps ?near t (beaconEvent False)
         \<and> maxDistance ?near = Some (distance exampleDeps t)
         \<and> \<not> outOfRange (beaconEvent False)"
    using published_outOfRange [where d = exampleDeps and cfg = ?near and tag = beaconTag
        and s = initialState and ev = "beaconEvent False" and s' = ?s1] fe
    by (auto simp: example_filteredTag example_distance exampleConfig_limit)
  have b: "handleDiscovery_resume exampleDeps ?far 0 beaconTag initialState
     = throttledDispatch exampleDeps ?far 0 (beaconEvent True) ?s2"
    using published_outOfRange [where d = exampleDeps and cfg = ?far and tag = beaconTag
        and s = initialState and ev = "beaconEvent True" and s' = ?s2 and now = 0] pf fe2
    by simp
  have c: "\<exists>t. eventOfTag exampleDeps ?far t (beaconEvent True)
         \<and> ev_distance (beaconEvent True) = distance exampleDeps t
         \<and> outOfRange (beaconEvent True) = (distance exampleDeps t > 1)"
    using published_outOfRange [where d = exampleDeps and cfg = ?far and e = "beaconEvent True"
        and es = "[Advertisement beaconPeripheral, Continued 0]",
        THEN conjunct2, THEN conjunct2, THEN mp, OF pub]
    by (auto simp: exampleConfig_limit)
  from fe a pf fe2 b pub c show ?thesis by blast
qed

section \<open>Throttled dispatcher: properties\<close>



























lemmas throttle_defs =
  throttleTimerFires_def throttledDispatch_def hasOwnProperty_def storeUpdater_def
  lookupUpdater_def updateUpdater_def debounced_def shouldInvoke_def leadingEdge_def
  invokeFunc_def timerExpired_def trailingEdge_def remainingWait_def invoked_def dispatch_def
  assignmentThrows_def
  handleNewDistanceOfId_def handleNewDistance_def handleAppDiscovery_def
  createRoomPresenceSensor_def createDeviceTracker_def createBatterySensor_def add_def has_def
  newThrottled_def Let_def initialState_def exampleConfig_def exampleDeps_def exampleEvent_def
  namedEvent_def dispatched_def


lemma afterWindow_deliveries:
  "deliveries (effects afterWindow)
     = dispatched (exampleEvent (- 70)) @ dispatched (exampleEvent (- 71))"
  by (simp add: afterWindow_def throttle_defs)






end
